theory Spec2Isabelle
  imports Main "HOL-Library.Word"
begin

section \<open>The renter's download entry point (modules/renter/download.go)\<close>

text \<open>
  A shallow embedding of \<^verbatim>\<open>download.go\<close>: the \<^verbatim>\<open>download\<close> object with
  \<^verbatim>\<open>staticComplete\<close>, \<^verbatim>\<open>managedFail\<close> and \<^verbatim>\<open>Err\<close>, the constructor
  \<^verbatim>\<open>newDownload\<close> with its chunk loop, and the public \<^verbatim>\<open>Download\<close> and
  \<^verbatim>\<open>DownloadHistory\<close>.

  Go's \<^verbatim>\<open>uint64\<close> is \<open>64 word\<close>: \<open>+\<close>, \<open>-\<close> and \<open>*\<close> wrap around, \<open>div\<close> and
  \<open>mod\<close> are the unsigned operations, \<open>unat\<close> reads the value. Go's \<^verbatim>\<open>int64\<close> is
  \<open>64 word\<close> as well, read with \<open>sint\<close>; the conversion \<^verbatim>\<open>int64(x)\<close> of a
  \<^verbatim>\<open>uint64\<close> keeps the bits. A run-time panic is the outcome \<open>Panic\<close>; a loop that
  never ends is the value \<open>None\<close> of a partial function. Locks are not modelled: every
  function is run as one sequential step. Allocation is taken to succeed.
\<close>

subsection \<open>Basic types\<close>

type_synonym uint64 = "64 word"
type_synonym int64 = "64 word"
type_synonym Time = nat
type_synonym Hash = nat
type_synonym FileContractID = nat

datatype 'a outcome = Return 'a | Panic string

subsection \<open>Errors\<close>

text \<open>
  A Go \<^verbatim>\<open>error\<close> value is \<open>error option\<close>, \<open>None\<close> being \<^verbatim>\<open>nil\<close>. \<open>New s\<close> is the
  value of \<^verbatim>\<open>errors.New(s)\<close> and of \<^verbatim>\<open>fmt.Errorf\<close> with the formatted text \<open>s\<close>;
  \<open>ErrSet es\<close> is the library's \<^verbatim>\<open>errors.Error{ErrSet: es}\<close>, which \<^verbatim>\<open>Compose\<close> returns.
  The library github.com/NebulousLabs/errors is not part of the repository; \<open>Compose\<close>
  and \<open>ErrorMsg\<close> (the method \<^verbatim>\<open>Error()\<close>) follow its definition: \<^verbatim>\<open>Compose\<close> drops the nil arguments and returns nil
  when none is left, and the message of a set is its members' messages between brackets,
  separated by \<^verbatim>\<open>"; "\<close>.
\<close>

datatype error = New string | ErrSet "error list"

definition Compose :: "error option list \<Rightarrow> error option" where
  "Compose errs =
     (let r = List.map_filter id errs
      in if length r = 0 then None else Some (ErrSet r))"

fun joinErrSet :: "string list \<Rightarrow> string" where
  "joinErrSet [] = []"
| "joinErrSet [s] = s"
| "joinErrSet (s # t # ss) = s @ ''; '' @ joinErrSet (t # ss)"

fun ErrorMsg :: "error \<Rightarrow> string" where
  "ErrorMsg (New s) = s"
| "ErrorMsg (ErrSet es) = ''['' @ joinErrSet (map ErrorMsg es) @ '']''"

text \<open>\<^verbatim>\<open>%d\<close> of a \<^verbatim>\<open>uint64\<close>: the decimal digits of its value.\<close>

definition digit :: "nat \<Rightarrow> char" where
  "digit n = ''0123456789'' ! (n mod 10)"

fun decimal :: "nat \<Rightarrow> string" where
  "decimal n = (if n < 10 then [digit n] else decimal (n div 10) @ [digit n])"

subsection \<open>The download object\<close>

text \<open>
  A channel of \<^verbatim>\<open>struct{}\<close> on which nothing is ever sent is open or closed; closing a
  closed channel panics.
\<close>

datatype chan = ChanOpen | ChanClosed

definition close :: "chan \<Rightarrow> chan outcome" where
  "close c = (case c of ChanOpen \<Rightarrow> Return ChanClosed
                      | ChanClosed \<Rightarrow> Panic ''close of closed channel'')"

text \<open>
  \<^verbatim>\<open>downloadDestination\<close> is an interface declared outside this file. The model keeps what
  \<^verbatim>\<open>managedFail\<close> can observe of it: whether \<^verbatim>\<open>Close\<close> has been called, and the error
  that \<^verbatim>\<open>Close\<close> returns.
\<close>

record downloadDestination =
  dest_closed :: bool
  dest_closeErr :: "error option"

definition Close :: "downloadDestination \<Rightarrow> downloadDestination \<times> error option" where
  "Close w = (w\<lparr>dest_closed := True\<rparr>, dest_closeErr w)"

text \<open>
  The fields of \<^verbatim>\<open>download\<close>, without the logger, the memory manager and the mutex. What
  the code writes to the logger, and its two close operations, are recorded as a list of
  \<open>event\<close>s in program order.
\<close>

record download =
  atomicDataReceived :: uint64
  atomicTotalDataTransfered :: uint64
  chunksRemaining :: uint64
  completeChan :: chan
  err :: "error option"
  endTime :: Time
  staticStartTime :: Time
  destination :: downloadDestination
  destinationString :: string
  destinationType :: string
  staticLength :: uint64
  staticOffset :: uint64
  staticSiaPath :: string
  staticLatencyTarget :: uint64
  staticOverdrive :: int
  staticPriority :: uint64

datatype event =
    CloseCompleteChan
  | CloseDestination
  | LogCritical string "error option"
  | LogPrintln string "error option"

definition staticComplete :: "download \<Rightarrow> bool" where
  "staticComplete d = (case completeChan d of ChanClosed \<Rightarrow> True | ChanOpen \<Rightarrow> False)"

definition managedFail :: "download \<Rightarrow> error option \<Rightarrow> (download \<times> event list) outcome" where
  "managedFail d e =
     (let complete = staticComplete d
      in if complete \<and> err d \<noteq> None then
           Return (d\<lparr>err := Compose [err d, e]\<rparr>, [])
         else if complete \<and> err d = None then
           Return (d, [LogCritical
             ''download is marked as completed without error, but then managedFail was called with err:'' e])
         else
           (let d1 = d\<lparr>err := e\<rparr>
            in case close (completeChan d1) of
                 Panic m \<Rightarrow> Panic m
               | Return c \<Rightarrow>
                   (let d2 = d1\<lparr>completeChan := c\<rparr>;
                        (w, cerr) = Close (destination d2);
                        d3 = d2\<lparr>destination := w\<rparr>
                    in if cerr \<noteq> None then
                         Return (d3, [CloseCompleteChan, CloseDestination,
                                      LogPrintln ''unable to close download destination:'' cerr])
                       else Return (d3, [CloseCompleteChan, CloseDestination]))))"

definition Err :: "download \<Rightarrow> error option" where
  "Err d = err d"

text \<open>
  A run of \<^verbatim>\<open>managedFail\<close> calls on one download, one call per element of the list, in
  order; the events of the calls are concatenated. A panic ends the run.
\<close>

fun managedFail_run :: "download \<Rightarrow> error option list \<Rightarrow> (download \<times> event list) outcome" where
  "managedFail_run d [] = Return (d, [])"
| "managedFail_run d (e # es) =
     (case managedFail d e of
        Panic m \<Rightarrow> Panic m
      | Return (d', evs) \<Rightarrow>
          (case managedFail_run d' es of
             Panic m \<Rightarrow> Panic m
           | Return (d'', evs') \<Rightarrow> Return (d'', evs @ evs')))"

subsection \<open>Files, contracts and chunks\<close>

text \<open>
  The types \<^verbatim>\<open>file\<close>, \<^verbatim>\<open>fileContract\<close>, \<^verbatim>\<open>pieceData\<close>,
  \<^verbatim>\<open>downloadPieceInfo\<close> and \<^verbatim>\<open>unfinishedDownloadChunk\<close> are declared in other files
  of the package; the records hold the fields that \<^verbatim>\<open>download.go\<close> reads and writes,
  with the types its expressions force. \<^verbatim>\<open>file.contracts\<close> is a Go map, which
  \<^verbatim>\<open>range\<close> visits in an order of its own choosing: the model is the list of its
  entries in the order of the visit.
\<close>

record pieceData =
  Chunk :: uint64
  Piece :: uint64
  MerkleRoot :: Hash

record fileContract =
  Pieces :: "pieceData list"

record erasureCoder =
  MinPieces :: nat
  NumPieces :: nat

text \<open>
  Modelled from the spec: the method \<^verbatim>\<open>staticChunkSize()\<close> of \<^verbatim>\<open>file\<close> is not in
  the source. The spec lists the chunk size among the file's metadata ("a fixed-size
  logical slice of a file"); it is the field \<open>file_staticChunkSize\<close>.
  The type is named \<open>fileT\<close>, \<open>file\<close> being a keyword.
\<close>

record fileT =
  file_name :: string
  file_size :: uint64
  file_contracts :: "(FileContractID \<times> fileContract) list"
  file_masterKey :: nat
  file_erasureCode :: erasureCoder
  file_pieceSize :: uint64
  file_staticChunkSize :: uint64

record downloadPieceInfo =
  index :: uint64
  root :: Hash

type_synonym chunkMap = "FileContractID \<rightharpoonup> downloadPieceInfo"

text \<open>A \<^verbatim>\<open>*download\<close> is an address: an index into the renter's list of download objects.\<close>

type_synonym download_ptr = nat

record unfinishedDownloadChunk =
  udc_destination :: downloadDestination
  udc_erasureCode :: erasureCoder
  udc_masterKey :: nat
  udc_staticChunkIndex :: uint64
  udc_staticChunkMap :: chunkMap
  udc_staticChunkSize :: uint64
  udc_staticPieceSize :: uint64
  udc_staticLatencyTarget :: uint64
  udc_staticNeedsMemory :: bool
  udc_staticPriority :: uint64
  udc_physicalChunkData :: "8 word list list"
  udc_pieceUsage :: "bool list"
  udc_download :: download_ptr
  udc_staticFetchOffset :: uint64
  udc_staticFetchLength :: uint64
  udc_staticWriteOffset :: int64
  udc_staticOverdrive :: int

record downloadParams =
  params_destination :: downloadDestination
  params_destinationType :: string
  params_destinationString :: string
  params_file :: "fileT option"
  params_latencyTarget :: uint64
  params_length :: uint64
  params_needsMemory :: bool
  params_offset :: uint64
  params_overdrive :: int
  params_priority :: uint64

subsection \<open>The renter\<close>

text \<open>
  The part of \<^verbatim>\<open>Renter\<close> that \<^verbatim>\<open>download.go\<close> uses. \<open>downloads\<close> is the store of
  download objects, \<open>downloadHistory\<close> the slice of pointers into it. \<open>ResolveID\<close> is
  \<^verbatim>\<open>r.hostContractor.ResolveID\<close>, \<open>renterLog\<close> what has been written to \<^verbatim>\<open>r.log\<close>.

  Modelled from the spec: \<^verbatim>\<open>managedAddChunkToDownloadHeap\<close> is not in the source. The
  spec has the handle "enqueue each [chunk] as a pending job on the DownloadHeap";
  \<open>downloadHeap\<close> lists the chunks handed to it, in the order of the calls, and
  \<open>newDownloads\<close> says whether the single-slot wake signal is pending.
\<close>

record Renter =
  files :: "string \<rightharpoonup> fileT"
  ResolveID :: "FileContractID \<Rightarrow> FileContractID"
  downloads :: "download list"
  downloadHistory :: "download_ptr list"
  downloadHeap :: "unfinishedDownloadChunk list"
  newDownloads :: bool
  renterLog :: "event list"

definition managedAddChunkToDownloadHeap :: "Renter \<Rightarrow> unfinishedDownloadChunk \<Rightarrow> Renter" where
  "managedAddChunkToDownloadHeap r udc = r\<lparr>downloadHeap := downloadHeap r @ [udc]\<rparr>"

subsection \<open>newDownload\<close>

text \<open>
  Lines 196 to 212: the pieces of one contract, then the contracts of the file. The state
  is the slice \<^verbatim>\<open>chunkMaps\<close> and the renter (for its log). An index outside the slice
  panics.
\<close>

fun piecesLoop ::
  "uint64 \<Rightarrow> uint64 \<Rightarrow> FileContractID \<Rightarrow> pieceData list \<Rightarrow> chunkMap list \<times> Renter
   \<Rightarrow> (chunkMap list \<times> Renter) outcome" where
  "piecesLoop minChunk maxChunk resolvedID [] s = Return s"
| "piecesLoop minChunk maxChunk resolvedID (piece # pieces) (chunkMaps, r) =
     (if Chunk piece \<ge> minChunk \<and> Chunk piece \<le> maxChunk then
        (let k = unat (Chunk piece - minChunk)
         in if k < length chunkMaps then
              (let exists = ((chunkMaps ! k) resolvedID \<noteq> None);
                   r' = (if exists
                         then r\<lparr>renterLog := renterLog r @
                                [LogPrintln ''ERROR: Worker has multiple pieces uploaded for the same chunk.'' None]\<rparr>
                         else r);
                   chunkMaps' = chunkMaps[k := (chunkMaps ! k)
                                  (resolvedID \<mapsto> \<lparr>index = Piece piece, root = MerkleRoot piece\<rparr>)]
               in piecesLoop minChunk maxChunk resolvedID pieces (chunkMaps', r'))
            else Panic ''index out of range'')
      else piecesLoop minChunk maxChunk resolvedID pieces (chunkMaps, r))"

fun contractsLoop ::
  "uint64 \<Rightarrow> uint64 \<Rightarrow> (FileContractID \<times> fileContract) list \<Rightarrow> chunkMap list \<times> Renter
   \<Rightarrow> (chunkMap list \<times> Renter) outcome" where
  "contractsLoop minChunk maxChunk [] s = Return s"
| "contractsLoop minChunk maxChunk ((cid, contract) # contracts) (chunkMaps, r) =
     (let resolvedID = ResolveID r cid
      in case piecesLoop minChunk maxChunk resolvedID (Pieces contract) (chunkMaps, r) of
           Panic m \<Rightarrow> Panic m
         | Return s' \<Rightarrow> contractsLoop minChunk maxChunk contracts s')"

text \<open>Lines 219 to 270: the chunk built in iteration \<open>i\<close> of the queueing loop.\<close>

definition newChunk ::
  "downloadParams \<Rightarrow> fileT \<Rightarrow> chunkMap \<Rightarrow> uint64 \<Rightarrow> uint64 \<Rightarrow> download_ptr \<Rightarrow> uint64 \<Rightarrow> int64
   \<Rightarrow> unfinishedDownloadChunk" where
  "newChunk params f cm minChunk maxChunk d i writeOffset =
     (let udc0 = \<lparr>udc_destination = params_destination params,
                  udc_erasureCode = file_erasureCode f,
                  udc_masterKey = file_masterKey f,
                  udc_staticChunkIndex = i,
                  udc_staticChunkMap = cm,
                  udc_staticChunkSize = file_staticChunkSize f,
                  udc_staticPieceSize = file_pieceSize f,
                  udc_staticLatencyTarget = params_latencyTarget params + (25 * (i - minChunk)),
                  udc_staticNeedsMemory = params_needsMemory params,
                  udc_staticPriority = params_priority params,
                  udc_physicalChunkData = replicate (NumPieces (file_erasureCode f)) [],
                  udc_pieceUsage = replicate (NumPieces (file_erasureCode f)) False,
                  udc_download = d,
                  udc_staticFetchOffset = 0,
                  udc_staticFetchLength = 0,
                  udc_staticWriteOffset = 0,
                  udc_staticOverdrive = 0\<rparr>;
          udc1 = (if i = minChunk
                  then udc0\<lparr>udc_staticFetchOffset := params_offset params mod file_staticChunkSize f\<rparr>
                  else udc0\<lparr>udc_staticFetchOffset := 0\<rparr>);
          udc2 = (if i = maxChunk \<and>
                     (params_length params + params_offset params) mod file_staticChunkSize f \<noteq> 0
                  then udc1\<lparr>udc_staticFetchLength :=
                         ((params_length params + params_offset params) mod file_staticChunkSize f)
                           - udc_staticFetchOffset udc1\<rparr>
                  else udc1\<lparr>udc_staticFetchLength :=
                         file_staticChunkSize f - udc_staticFetchOffset udc1\<rparr>);
          udc3 = udc2\<lparr>udc_staticWriteOffset := writeOffset\<rparr>
      in if i < 2 then udc3\<lparr>udc_staticOverdrive := params_overdrive params\<rparr> else udc3)"

text \<open>
  Lines 217 to 279: the loop \<^verbatim>\<open>for i := minChunk; i <= maxChunk; i++\<close>. The counter is a
  \<^verbatim>\<open>uint64\<close>, so \<open>i + 1\<close> wraps, and with \<open>maxChunk = 2^64 - 1\<close> the loop would not end:
  the result \<open>None\<close>. The state is the renter, the download object under construction and
  \<^verbatim>\<open>writeOffset\<close>.
\<close>

partial_function (option) queueChunks ::
  "downloadParams \<Rightarrow> fileT \<Rightarrow> chunkMap list \<Rightarrow> uint64 \<Rightarrow> uint64 \<Rightarrow> download_ptr \<Rightarrow> uint64
   \<Rightarrow> Renter \<times> download \<times> int64 \<Rightarrow> (Renter \<times> download \<times> int64) outcome option" where
  "queueChunks params f chunkMaps minChunk maxChunk dp i s =
     (if i \<le> maxChunk then
        (if unat (i - minChunk) < length chunkMaps then
           queueChunks params f chunkMaps minChunk maxChunk dp (i + 1)
             (let udc = newChunk params f (chunkMaps ! unat (i - minChunk)) minChunk maxChunk dp i
                          (snd (snd s))
              in ((managedAddChunkToDownloadHeap (fst s) udc)\<lparr>newDownloads := True\<rparr>,
                  (fst (snd s))\<lparr>chunksRemaining := chunksRemaining (fst (snd s)) + 1\<rparr>,
                  snd (snd s) + udc_staticFetchLength udc))
         else Some (Panic ''index out of range''))
      else Some (Return s))"

text \<open>
  \<^verbatim>\<open>newDownload\<close> returns \<^verbatim>\<open>(nil, err)\<close>, the value \<open>Inl err\<close>, or \<^verbatim>\<open>(d, nil)\<close>, the
  value \<open>Inr d\<close> with \<open>d\<close> the address of the new object, which is placed at the end of
  \<open>downloads\<close>. The argument \<open>now\<close> is the value of \<^verbatim>\<open>time.Now()\<close>. A division by a
  chunk size of zero panics.
\<close>

definition newDownload ::
  "Renter \<Rightarrow> downloadParams \<Rightarrow> Time \<Rightarrow> ((error + download_ptr) \<times> Renter) outcome option" where
  "newDownload r params now =
     (case params_file params of
        None \<Rightarrow> Some (Return (Inl (New ''no file provided when requesting download''), r))
      | Some f \<Rightarrow>
          if params_length params \<le> 0 then
            Some (Return (Inl (New ''download length must be a positive whole number''), r))
          else if params_offset params < 0 then
            Some (Return (Inl (New ''download offset cannot be a negative number''), r))
          else if params_offset params + params_length params > file_size f then
            Some (Return (Inl (New ''download is requesting data past the boundary of the file''), r))
          else
            (let d = \<lparr>atomicDataReceived = 0,
                      atomicTotalDataTransfered = 0,
                      chunksRemaining = 0,
                      completeChan = ChanOpen,
                      err = None,
                      endTime = 0,
                      staticStartTime = now,
                      destination = params_destination params,
                      destinationString = params_destinationString params,
                      destinationType = '''',
                      staticLength = params_length params,
                      staticOffset = params_offset params,
                      staticSiaPath = file_name f,
                      staticLatencyTarget = params_latencyTarget params,
                      staticOverdrive = params_overdrive params,
                      staticPriority = params_priority params\<rparr>;
                 dp = length (downloads r)
             in if file_staticChunkSize f = 0 then Some (Panic ''integer divide by zero'')
                else
                  (let minChunk = params_offset params div file_staticChunkSize f;
                       maxChunk = (params_offset params + params_length params - 1)
                                    div file_staticChunkSize f;
                       chunkMaps = replicate (unat (maxChunk - minChunk + 1)) Map.empty
                   in case contractsLoop minChunk maxChunk (file_contracts f) (chunkMaps, r) of
                        Panic m \<Rightarrow> Some (Panic m)
                      | Return (chunkMaps', r1) \<Rightarrow>
                          (case queueChunks params f chunkMaps' minChunk maxChunk dp minChunk (r1, d, 0) of
                             None \<Rightarrow> None
                           | Some (Panic m) \<Rightarrow> Some (Panic m)
                           | Some (Return (r2, d', writeOffset)) \<Rightarrow>
                               Some (Return (Inr dp, r2\<lparr>downloads := downloads r2 @ [d']\<rparr>))))))"

subsection \<open>Download\<close>

text \<open>
  \<^verbatim>\<open>modules.RenterDownloadParameters\<close>; \<open>p_Httpwriter\<close> is \<open>None\<close> for a nil
  \<^verbatim>\<open>io.Writer\<close>.
\<close>

record RenterDownloadParameters =
  p_Async :: bool
  p_Httpwriter :: "nat option"
  p_Length :: uint64
  p_Offset :: uint64
  p_SiaPath :: string
  p_Destination :: string

text \<open>\<^verbatim>\<open>filepath.IsAbs\<close> of the standard library, on Unix: the path starts with a slash.\<close>

definition IsAbs :: "string \<Rightarrow> bool" where
  "IsAbs path = (case path of [] \<Rightarrow> False | c # _ \<Rightarrow> c = CHR ''/'')"

text \<open>
  What \<^verbatim>\<open>Download\<close> takes from outside the renter: the clock, the result of
  \<^verbatim>\<open>os.OpenFile\<close>, what the other goroutines do to the renter while the call is blocked in
  its \<^verbatim>\<open>select\<close>, whether the stop channel of the thread group is closed by then, and
  the case that \<^verbatim>\<open>select\<close> picks when both channels are ready.
\<close>

record environment =
  env_now :: Time
  env_openFile :: "error + downloadDestination"
  env_others :: "Renter \<Rightarrow> Renter"
  env_stopped :: bool
  env_pickStop :: bool

text \<open>
  Modelled from the spec: \<^verbatim>\<open>newDownloadDestinationHTTPWriter\<close> is not in the source; it
  wraps the writer in a streaming sink, which starts open.
\<close>

definition newDownloadDestinationHTTPWriter :: "nat option \<Rightarrow> downloadDestination" where
  "newDownloadDestinationHTTPWriter w = \<lparr>dest_closed = False, dest_closeErr = None\<rparr>"

text \<open>
  Lines 285 to 317: the lookup of the file and the validation of the parameters. The result
  is the error returned, or the file with the parameters after the sentinel length has been
  replaced.
\<close>

definition Download_validate ::
  "Renter \<Rightarrow> RenterDownloadParameters \<Rightarrow> error + (fileT \<times> RenterDownloadParameters)" where
  "Download_validate r p =
     (case files r (p_SiaPath p) of
        None \<Rightarrow> Inl (New (''no file with that path: '' @ p_SiaPath p))
      | Some f \<Rightarrow>
          (let isHTTPResp = (p_Httpwriter p \<noteq> None)
           in if p_Async p \<and> isHTTPResp then
                Inl (New ''cannot async download to http response'')
              else if isHTTPResp \<and> p_Destination p \<noteq> [] then
                Inl (New ''destination cannot be specified when downloading to http response'')
              else if \<not> isHTTPResp \<and> p_Destination p = [] then
                Inl (New ''destination not supplied'')
              else if p_Destination p \<noteq> [] \<and> \<not> IsAbs (p_Destination p) then
                Inl (New ''destination must be an absolute path'')
              else if p_Offset p = file_size f then
                Inl (New ''offset equals filesize'')
              else
                (let p' = (if p_Length p = 0 then p\<lparr>p_Length := file_size f - p_Offset p\<rparr> else p)
                 in if p_Offset p' < 0 \<or> p_Offset p' + p_Length p' > file_size f then
                      Inl (New (''offset and length combination invalid, max byte is at index ''
                                @ decimal (unat (file_size f - 1))))
                    else Inr (f, p'))))"

text \<open>
  Lines 357 to 363: the \<^verbatim>\<open>select\<close> on the download's completion channel and the stop
  channel. \<open>None\<close>: neither channel is ever ready and the call does not return.
\<close>

definition Download_wait ::
  "Renter \<Rightarrow> download_ptr \<Rightarrow> environment \<Rightarrow> (error option \<times> Renter) outcome option" where
  "Download_wait r dp env =
     (let r' = env_others env r
      in if dp < length (downloads r') then
           (let d = downloads r' ! dp
            in if staticComplete d \<and> \<not> (env_stopped env \<and> env_pickStop env) then
                 Some (Return (Err d, r'))
               else if env_stopped env then
                 Some (Return (Some (New ''download interrupted by shutdown''), r'))
               else None)
         else Some (Panic ''invalid memory address or nil pointer dereference''))"

text \<open>
  Lines 319 to 355: the destination is instantiated, the download object is created, and
  its address is appended to the history. The result is \<open>Inl\<close> of the error with which
  \<^verbatim>\<open>Download\<close> returns early, or \<open>Inr\<close> of the address of the new download.
\<close>

definition Download_enqueue ::
  "Renter \<Rightarrow> fileT \<Rightarrow> RenterDownloadParameters \<Rightarrow> environment
   \<Rightarrow> ((error + download_ptr) \<times> Renter) outcome option" where
  "Download_enqueue r f p env =
     (let isHTTPResp = (p_Httpwriter p \<noteq> None)
      in case (if isHTTPResp
               then Inr (newDownloadDestinationHTTPWriter (p_Httpwriter p), ''http stream'')
               else (case env_openFile env of
                       Inl e \<Rightarrow> Inl e
                     | Inr osFile \<Rightarrow> Inr (osFile, ''file''))) of
           Inl e \<Rightarrow> Some (Return (Inl e, r))
         | Inr (dw, dtype) \<Rightarrow>
             (case newDownload r
                     \<lparr>params_destination = dw,
                      params_destinationType = dtype,
                      params_destinationString = p_Destination p,
                      params_file = Some f,
                      params_latencyTarget = 25000,
                      params_length = p_Length p,
                      params_needsMemory = True,
                      params_offset = p_Offset p,
                      params_overdrive = 2,
                      params_priority = 5\<rparr>
                     (env_now env) of
                None \<Rightarrow> None
              | Some (Panic m) \<Rightarrow> Some (Panic m)
              | Some (Return (Inl e, r1)) \<Rightarrow> Some (Return (Inl e, r1))
              | Some (Return (Inr d, r1)) \<Rightarrow>
                  Some (Return (Inr d, r1\<lparr>downloadHistory := downloadHistory r1 @ [d]\<rparr>))))"

text \<open>\<^verbatim>\<open>Download\<close>: the three parts in sequence.\<close>

definition Download ::
  "Renter \<Rightarrow> RenterDownloadParameters \<Rightarrow> environment \<Rightarrow> (error option \<times> Renter) outcome option" where
  "Download r p0 env =
     (case Download_validate r p0 of
        Inl e \<Rightarrow> Some (Return (Some e, r))
      | Inr (f, p) \<Rightarrow>
          (case Download_enqueue r f p env of
             None \<Rightarrow> None
           | Some (Panic m) \<Rightarrow> Some (Panic m)
           | Some (Return (Inl e, r1)) \<Rightarrow> Some (Return (Some e, r1))
           | Some (Return (Inr d, r2)) \<Rightarrow> Download_wait r2 d env))"

subsection \<open>DownloadHistory\<close>

record DownloadInfo =
  Destination :: string
  DestinationType :: string
  Length :: uint64
  Offset :: uint64
  SiaPath :: string
  Completed :: bool
  EndTime :: Time
  Received :: uint64
  StartTime :: Time
  TotalDataTransfered :: uint64
  Error :: string

text \<open>Lines 378 to 401: the body of the loop, for the index \<open>i\<close>.\<close>

definition historyEntry :: "Renter \<Rightarrow> nat \<Rightarrow> DownloadInfo outcome" where
  "historyEntry r i =
     (let n = length (downloadHistory r)
      in if n - i - 1 < n \<and> i < n then
           (let dp = downloadHistory r ! (n - i - 1)
            in if dp < length (downloads r) then
                 (let d = downloads r ! dp;
                      info = \<lparr>Destination = destinationString d,
                              DestinationType = destinationType d,
                              Length = staticLength d,
                              Offset = staticOffset d,
                              SiaPath = staticSiaPath d,
                              Completed = staticComplete d,
                              EndTime = endTime d,
                              Received = atomicDataReceived d,
                              StartTime = staticStartTime d,
                              TotalDataTransfered = atomicTotalDataTransfered d,
                              Error = []\<rparr>
                  in case Err d of
                       Some e \<Rightarrow> Return (info\<lparr>Error := ErrorMsg e\<rparr>)
                     | None \<Rightarrow> Return (info\<lparr>Error := []\<rparr>))
               else Panic ''invalid memory address or nil pointer dereference'')
         else Panic ''index out of range'')"

fun historyLoop :: "Renter \<Rightarrow> nat list \<Rightarrow> DownloadInfo list outcome" where
  "historyLoop r [] = Return []"
| "historyLoop r (i # is) =
     (case historyEntry r i of
        Panic m \<Rightarrow> Panic m
      | Return x \<Rightarrow>
          (case historyLoop r is of
             Panic m \<Rightarrow> Panic m
           | Return xs \<Rightarrow> Return (x # xs)))"

definition DownloadHistory :: "Renter \<Rightarrow> DownloadInfo list outcome" where
  "DownloadHistory r = historyLoop r [0..<length (downloadHistory r)]"

section \<open>Auxiliary definitions for the proofs\<close>

text \<open>
  The chunks that \<open>n\<close> iterations of the queueing loop build, starting at index \<open>i\<close> with
  the write offset \<open>wo\<close>; the entries that the piece loops put into the map of one chunk;
  and the values used as examples.
\<close>

fun chunkJobs ::
  "downloadParams \<Rightarrow> fileT \<Rightarrow> chunkMap list \<Rightarrow> uint64 \<Rightarrow> uint64 \<Rightarrow> download_ptr \<Rightarrow> nat \<Rightarrow> uint64
   \<Rightarrow> int64 \<Rightarrow> unfinishedDownloadChunk list" where
  "chunkJobs params f cms minChunk maxChunk dp 0 i wo = []"
| "chunkJobs params f cms minChunk maxChunk dp (Suc n) i wo =
     newChunk params f (cms ! unat (i - minChunk)) minChunk maxChunk dp i wo
     # chunkJobs params f cms minChunk maxChunk dp n (i + 1)
         (wo + udc_staticFetchLength
                 (newChunk params f (cms ! unat (i - minChunk)) minChunk maxChunk dp i wo))"


definition pieceInfo :: "pieceData \<Rightarrow> downloadPieceInfo" where
  "pieceInfo p = \<lparr>index = Piece p, root = MerkleRoot p\<rparr>"

definition putAll :: "chunkMap \<Rightarrow> (FileContractID \<times> downloadPieceInfo) list \<Rightarrow> chunkMap" where
  "putAll m xs = foldl (\<lambda>m x. m(fst x \<mapsto> snd x)) m xs"

definition piecesOf :: "FileContractID \<Rightarrow> pieceData list \<Rightarrow> uint64 \<Rightarrow> (FileContractID \<times> downloadPieceInfo) list" where
  "piecesOf rid ps c = map (\<lambda>p. (rid, pieceInfo p)) (filter (\<lambda>p. Chunk p = c) ps)"

definition chunkPieces ::
  "(FileContractID \<Rightarrow> FileContractID) \<Rightarrow> (FileContractID \<times> fileContract) list \<Rightarrow> uint64
   \<Rightarrow> (FileContractID \<times> downloadPieceInfo) list" where
  "chunkPieces resolve contracts c =
     concat (map (\<lambda>x. piecesOf (resolve (fst x)) (Pieces (snd x)) c) contracts)"


text \<open>
  A download is validated when, in exact arithmetic, the requested range is not empty and
  lies within the file; the chunk size of a file is positive. For such a download, the
  names below stand for the values that \<^verbatim>\<open>newDownload\<close> computes: the first and last
  chunk (lines 186 and 187), the number of chunks, the chunk maps after the piece loops,
  the chunks handed to the heap, and the download object returned.
\<close>

definition validated :: "downloadParams \<Rightarrow> fileT \<Rightarrow> bool" where
  "validated params f =
     (params_file params = Some f \<and> 0 < unat (params_length params)
      \<and> unat (params_offset params) + unat (params_length params) \<le> unat (file_size f)
      \<and> file_staticChunkSize f \<noteq> 0)"

definition minChunkOf :: "downloadParams \<Rightarrow> fileT \<Rightarrow> uint64" where
  "minChunkOf params f = params_offset params div file_staticChunkSize f"

definition maxChunkOf :: "downloadParams \<Rightarrow> fileT \<Rightarrow> uint64" where
  "maxChunkOf params f =
     (params_offset params + params_length params - 1) div file_staticChunkSize f"

definition chunkCount :: "downloadParams \<Rightarrow> fileT \<Rightarrow> nat" where
  "chunkCount params f = unat (maxChunkOf params f - minChunkOf params f) + 1"

definition chunkMapsOf :: "Renter \<Rightarrow> downloadParams \<Rightarrow> fileT \<Rightarrow> chunkMap list" where
  "chunkMapsOf r params f =
     map (\<lambda>k. putAll Map.empty
                 (chunkPieces (ResolveID r) (file_contracts f) (minChunkOf params f + of_nat k)))
         [0..<chunkCount params f]"

definition jobsOf :: "Renter \<Rightarrow> downloadParams \<Rightarrow> fileT \<Rightarrow> unfinishedDownloadChunk list" where
  "jobsOf r params f =
     chunkJobs params f (chunkMapsOf r params f) (minChunkOf params f) (maxChunkOf params f)
       (length (downloads r)) (chunkCount params f) (minChunkOf params f) 0"

definition downloadOf :: "downloadParams \<Rightarrow> fileT \<Rightarrow> Time \<Rightarrow> download" where
  "downloadOf params f now =
     \<lparr>atomicDataReceived = 0, atomicTotalDataTransfered = 0,
      chunksRemaining = of_nat (chunkCount params f),
      completeChan = ChanOpen, err = None, endTime = 0, staticStartTime = now,
      destination = params_destination params,
      destinationString = params_destinationString params,
      destinationType = [],
      staticLength = params_length params, staticOffset = params_offset params,
      staticSiaPath = file_name f,
      staticLatencyTarget = params_latencyTarget params,
      staticOverdrive = params_overdrive params,
      staticPriority = params_priority params\<rparr>"


text \<open>
  The bytes of the file that chunk number \<open>k\<close> of a download covers, as natural numbers:
  from \<open>chunkStart\<close> (included) to \<open>chunkEnd\<close> (excluded).
\<close>

definition chunkStart :: "downloadParams \<Rightarrow> fileT \<Rightarrow> nat \<Rightarrow> nat" where
  "chunkStart params f k =
     (if k = 0 then unat (params_offset params)
      else (unat (minChunkOf params f) + k) * unat (file_staticChunkSize f))"

definition chunkEnd :: "downloadParams \<Rightarrow> fileT \<Rightarrow> nat \<Rightarrow> nat" where
  "chunkEnd params f k =
     (if k + 1 = chunkCount params f
      then unat (params_offset params) + unat (params_length params)
      else (unat (minChunkOf params f) + k + 1) * unat (file_staticChunkSize f))"


text \<open>
  What \<^verbatim>\<open>newDownload\<close> leaves unchanged: the store of download objects, the history and
  the files of the renter, and every field of the download under construction but
  \<open>chunksRemaining\<close>.
\<close>

definition sameStore :: "Renter \<Rightarrow> Renter \<Rightarrow> bool" where
  "sameStore r r' =
     (downloads r' = downloads r \<and> downloadHistory r' = downloadHistory r \<and> files r' = files r
      \<and> ResolveID r' = ResolveID r)"

definition sameDownload :: "download \<Rightarrow> download \<Rightarrow> bool" where
  "sameDownload d d' = (d' = d\<lparr>chunksRemaining := chunksRemaining d'\<rparr>)"

definition loopInv :: "Renter \<times> download \<times> int64 \<Rightarrow> (Renter \<times> download \<times> int64) outcome \<Rightarrow> bool" where
  "loopInv s y =
     (case y of
        Panic m \<Rightarrow> True
      | Return s' \<Rightarrow> sameStore (fst s) (fst s') \<and> sameDownload (fst (snd s)) (fst (snd s')))"

text \<open>The chunks on the heap after a call that returned; none when it did not return.\<close>

definition enqueued ::
  "((error + download_ptr) \<times> Renter) outcome option \<Rightarrow> unfinishedDownloadChunk list" where
  "enqueued res = (case res of Some (Return (x, r')) \<Rightarrow> downloadHeap r' | _ \<Rightarrow> [])"

text \<open>The download object that a call returned, read through the returned address.\<close>

definition returnedDownload ::
  "((error + download_ptr) \<times> Renter) outcome option \<Rightarrow> download option" where
  "returnedDownload res =
     (case res of
        Some (Return (Inr dp, r')) \<Rightarrow> (if dp < length (downloads r') then Some (downloads r' ! dp) else None)
      | _ \<Rightarrow> None)"

text \<open>The error and the renter with which a call of \<^verbatim>\<open>Download\<close> returned.\<close>

definition returnedError :: "(error option \<times> Renter) outcome option \<Rightarrow> error option" where
  "returnedError res = (case res of Some (Return (e, r')) \<Rightarrow> e | _ \<Rightarrow> None)"

definition renterAfter :: "(error option \<times> Renter) outcome option \<Rightarrow> Renter option" where
  "renterAfter res = (case res of Some (Return (e, r')) \<Rightarrow> Some r' | _ \<Rightarrow> None)"

text \<open>
  The entry of the history for one download, in the words of the specification: the
  fields are copied from the download, and the error string is empty when the error is
  nil and the error's message otherwise.
\<close>

definition downloadInfo :: "download \<Rightarrow> DownloadInfo" where
  "downloadInfo d =
     \<lparr>Destination = destinationString d,
      DestinationType = destinationType d,
      Length = staticLength d,
      Offset = staticOffset d,
      SiaPath = staticSiaPath d,
      Completed = staticComplete d,
      EndTime = endTime d,
      Received = atomicDataReceived d,
      StartTime = staticStartTime d,
      TotalDataTransfered = atomicTotalDataTransfered d,
      Error = (case Err d of None \<Rightarrow> [] | Some e \<Rightarrow> ErrorMsg e)\<rparr>"

subsection \<open>Example values\<close>

definition pendingDownload :: download where
  "pendingDownload =
     \<lparr>atomicDataReceived = 0, atomicTotalDataTransfered = 0, chunksRemaining = 1,
      completeChan = ChanOpen, err = None, endTime = 0, staticStartTime = 7,
      destination = \<lparr>dest_closed = False, dest_closeErr = None\<rparr>,
      destinationString = ''/tmp/out'', destinationType = '''',
      staticLength = 10, staticOffset = 0, staticSiaPath = ''a'',
      staticLatencyTarget = 25000, staticOverdrive = 2, staticPriority = 5\<rparr>"


definition exFile :: fileT where
  "exFile =
     \<lparr>file_name = ''a'', file_size = 12,
      file_contracts =
        [(1, \<lparr>Pieces = [\<lparr>Chunk = 0, Piece = 0, MerkleRoot = 10\<rparr>,
                         \<lparr>Chunk = 2, Piece = 0, MerkleRoot = 12\<rparr>]\<rparr>),
         (2, \<lparr>Pieces = [\<lparr>Chunk = 2, Piece = 1, MerkleRoot = 22\<rparr>]\<rparr>)],
      file_masterKey = 0,
      file_erasureCode = \<lparr>MinPieces = 1, NumPieces = 2\<rparr>,
      file_pieceSize = 4, file_staticChunkSize = 4\<rparr>"

definition exRenter :: Renter where
  "exRenter =
     \<lparr>files = [''a'' \<mapsto> exFile], ResolveID = (\<lambda>c. c), downloads = [], downloadHistory = [],
      downloadHeap = [], newDownloads = False, renterLog = []\<rparr>"

definition exParams :: "uint64 \<Rightarrow> uint64 \<Rightarrow> downloadParams" where
  "exParams off len =
     \<lparr>params_destination = \<lparr>dest_closed = False, dest_closeErr = None\<rparr>,
      params_destinationType = ''file'', params_destinationString = ''/tmp/out'',
      params_file = Some exFile, params_latencyTarget = 25000, params_length = len,
      params_needsMemory = True, params_offset = off, params_overdrive = 2,
      params_priority = 5\<rparr>"

text \<open>A file of \<open>2^63 + 1\<close> bytes in chunks of \<open>2^63\<close> bytes, and the download of all of it.\<close>

definition exBigFile :: fileT where
  "exBigFile = exFile\<lparr>file_size := 9223372036854775809, file_staticChunkSize := 9223372036854775808\<rparr>"

definition exBigParams :: downloadParams where
  "exBigParams = (exParams 0 9223372036854775809)\<lparr>params_file := Some exBigFile\<rparr>"

definition exRequest ::
  "bool \<Rightarrow> nat option \<Rightarrow> uint64 \<Rightarrow> uint64 \<Rightarrow> string \<Rightarrow> string \<Rightarrow> RenterDownloadParameters" where
  "exRequest async w len off path dest =
     \<lparr>p_Async = async, p_Httpwriter = w, p_Length = len, p_Offset = off, p_SiaPath = path,
      p_Destination = dest\<rparr>"

text \<open>An environment in which no other goroutine acts and the stop channel is closed.\<close>

definition exEnv :: environment where
  "exEnv =
     \<lparr>env_now = 7, env_openFile = Inr \<lparr>dest_closed = False, dest_closeErr = None\<rparr>,
      env_others = (\<lambda>r. r), env_stopped = True, env_pickStop = True\<rparr>"

text \<open>A renter with two recorded downloads, the second of which has failed twice.\<close>

definition failedDownload :: download where
  "failedDownload =
     pendingDownload\<lparr>err := Some (ErrSet [New ''x'', New ''y'']), completeChan := ChanClosed,
       staticSiaPath := ''b''\<rparr>"

definition exHistoryRenter :: Renter where
  "exHistoryRenter = exRenter\<lparr>downloads := [pendingDownload, failedDownload], downloadHistory := [0, 1]\<rparr>"
section \<open>The loops of newDownload\<close>

lemma unat_Suc_word: "unat (i :: uint64) < unat (m :: uint64) + 1 \<Longrightarrow> unat m + 1 < 2 ^ 64 \<Longrightarrow> unat (i + 1) = unat i + 1"
  by (simp add: unat_word_ariths)

lemma unat_sub_le: "(a :: uint64) \<le> i \<Longrightarrow> i \<le> m \<Longrightarrow> unat (i - a) \<le> unat (m - a)"
  by (simp add: unat_sub word_le_nat_alt)

lemma queueChunks_run:
  "unat i + n = unat maxChunk + 1 \<Longrightarrow> unat maxChunk + 1 < 2 ^ 64 \<Longrightarrow> minChunk \<le> i \<Longrightarrow>
   unat (maxChunk - minChunk) < length cms \<Longrightarrow>
   queueChunks params f cms minChunk maxChunk dp i (r, d, wo) =
     Some (Return
       (r\<lparr>downloadHeap := downloadHeap r @ chunkJobs params f cms minChunk maxChunk dp n i wo,
          newDownloads := (n \<noteq> 0 \<or> newDownloads r)\<rparr>,
        d\<lparr>chunksRemaining := chunksRemaining d + of_nat n\<rparr>,
        wo + sum_list (map udc_staticFetchLength
                         (chunkJobs params f cms minChunk maxChunk dp n i wo))))"
proof (induction n arbitrary: i r d wo)
  case 0
  then have "\<not> i \<le> maxChunk" by (simp add: word_le_nat_alt)
  then show ?case
    by (subst queueChunks.simps) simp
next
  case (Suc n)
  from Suc.prems have le: "i \<le> maxChunk" by (simp add: word_le_nat_alt)
  from Suc.prems have suc: "unat (i + 1) = unat i + 1" by (simp add: unat_word_ariths)
  have idx: "unat (i - minChunk) < length cms"
    using unat_sub_le [OF Suc.prems(3) le] Suc.prems(4) by simp
  have min': "minChunk \<le> i + 1"
    using Suc.prems(3) suc by (simp add: word_le_nat_alt)
  have n': "unat (i + 1) + n = unat maxChunk + 1" using suc Suc.prems(1) by simp
  note IH = Suc.IH [OF n' Suc.prems(2) min' Suc.prems(4)]
  show ?case
    apply (subst queueChunks.simps)
    apply (simp add: le idx Let_def managedAddChunkToDownloadHeap_def IH add.assoc)
    done
qed

lemma unat_offset_index:
  "(minChunk :: uint64) \<le> maxChunk \<Longrightarrow> k \<le> unat (maxChunk - minChunk) \<Longrightarrow>
   unat (minChunk + of_nat k) = unat minChunk + k"
proof -
  assume a: "minChunk \<le> maxChunk" "k \<le> unat (maxChunk - minChunk)"
  then have "unat minChunk + k \<le> unat maxChunk" by (simp add: unat_sub word_le_nat_alt)
  moreover have "unat maxChunk < 2 ^ 64" using unsigned_less [of maxChunk] by simp
  ultimately have lt: "unat minChunk + k < 2 ^ 64" by linarith
  then have k: "k < 2 ^ 64" by linarith
  have "unat (of_nat k :: uint64) = k" using k by (simp add: unat_of_nat)
  then show ?thesis using lt by (simp add: unat_word_ariths)
qed

lemma index_in_range:
  "(minChunk :: uint64) \<le> maxChunk \<Longrightarrow> k \<le> unat (maxChunk - minChunk) \<Longrightarrow>
   minChunk \<le> minChunk + of_nat k \<and> minChunk + of_nat k \<le> maxChunk"
  using unat_offset_index [of minChunk maxChunk k]
  by (simp add: word_le_nat_alt unat_sub)

lemma index_eq_iff:
  "(minChunk :: uint64) \<le> c \<Longrightarrow> c \<le> maxChunk \<Longrightarrow> k \<le> unat (maxChunk - minChunk) \<Longrightarrow>
   (c = minChunk + of_nat k) = (unat (c - minChunk) = k)"
proof -
  assume a: "minChunk \<le> c" "c \<le> maxChunk" "k \<le> unat (maxChunk - minChunk)"
  then have mm: "minChunk \<le> maxChunk" by simp
  have u: "unat (minChunk + of_nat k) = unat minChunk + k"
    by (rule unat_offset_index [OF mm a(3)])
  have s: "unat (c - minChunk) = unat c - unat minChunk"
    using a(1) by (simp add: unat_sub)
  have "(c = minChunk + of_nat k) = (unat c = unat (minChunk + of_nat k))"
    by (simp add: word_unat_eq_iff)
  also have "\<dots> = (unat (c - minChunk) = k)"
    using u s a(1) by (auto simp: word_le_nat_alt)
  finally show ?thesis .
qed

lemma piecesLoop_run:
  "minChunk \<le> maxChunk \<Longrightarrow> length cms = unat (maxChunk - minChunk) + 1 \<Longrightarrow>
   \<exists>lg. piecesLoop minChunk maxChunk rid ps (cms, r) =
     Return (map (\<lambda>k. putAll (cms ! k) (piecesOf rid ps (minChunk + of_nat k))) [0..<length cms],
             r\<lparr>renterLog := renterLog r @ lg\<rparr>)"
proof (induction ps arbitrary: cms r)
  case Nil
  have "map (\<lambda>k. cms ! k) [0..<length cms] = cms" by (rule map_nth)
  then show ?case
    by (intro exI [of _ "[]"]) (simp add: putAll_def piecesOf_def)
next
  case (Cons p ps)
  show ?case
  proof (cases "minChunk \<le> Chunk p \<and> Chunk p \<le> maxChunk")
    case True
    let ?k0 = "unat (Chunk p - minChunk)"
    let ?cms1 = "cms[?k0 := (cms ! ?k0)(rid \<mapsto> \<lparr>index = Piece p, root = MerkleRoot p\<rparr>)]"
    let ?r1 = "if (cms ! ?k0) rid \<noteq> None
               then r\<lparr>renterLog := renterLog r @
                      [LogPrintln ''ERROR: Worker has multiple pieces uploaded for the same chunk.'' None]\<rparr>
               else r"
    from True have k0: "?k0 < length cms"
      using Cons.prems(1,2) by (simp add: unat_sub word_le_nat_alt) linarith
    have len1: "length ?cms1 = unat (maxChunk - minChunk) + 1" using Cons.prems(2) by simp
    from Cons.IH [OF Cons.prems(1) len1, of ?r1] obtain lg where
      IH: "piecesLoop minChunk maxChunk rid ps (?cms1, ?r1) =
        Return (map (\<lambda>k. putAll (?cms1 ! k) (piecesOf rid ps (minChunk + of_nat k))) [0..<length ?cms1],
                ?r1\<lparr>renterLog := renterLog ?r1 @ lg\<rparr>)"
      by blast
    have maps: "map (\<lambda>k. putAll (?cms1 ! k) (piecesOf rid ps (minChunk + of_nat k))) [0..<length ?cms1]
        = map (\<lambda>k. putAll (cms ! k) (piecesOf rid (p # ps) (minChunk + of_nat k))) [0..<length cms]"
    proof (rule map_cong)
      show "[0..<length ?cms1] = [0..<length cms]" by simp
    next
      fix k assume "k \<in> set [0..<length cms]"
      then have kl: "k \<le> unat (maxChunk - minChunk)" using Cons.prems(2) by auto
      have iff: "(Chunk p = minChunk + of_nat k) = (?k0 = k)"
        using index_eq_iff [of minChunk "Chunk p" maxChunk k] True kl by simp
      show "putAll (?cms1 ! k) (piecesOf rid ps (minChunk + of_nat k))
            = putAll (cms ! k) (piecesOf rid (p # ps) (minChunk + of_nat k))"
      proof (cases "?k0 = k")
        case True
        then show ?thesis using k0 iff
          by (simp add: piecesOf_def putAll_def pieceInfo_def)
      next
        case False
        then show ?thesis using iff
          by (simp add: piecesOf_def putAll_def)
      qed
    qed
    have logs: "\<exists>lg'. ?r1\<lparr>renterLog := renterLog ?r1 @ lg\<rparr> = r\<lparr>renterLog := renterLog r @ lg'\<rparr>"
    proof (cases "(cms ! ?k0) rid \<noteq> None")
      case True
      then show ?thesis
        by (intro exI [of _ "[LogPrintln ''ERROR: Worker has multiple pieces uploaded for the same chunk.'' None] @ lg"]) simp
    next
      case False
      then show ?thesis by (intro exI [of _ lg]) simp
    qed
    then obtain lg' where lg': "?r1\<lparr>renterLog := renterLog ?r1 @ lg\<rparr> = r\<lparr>renterLog := renterLog r @ lg'\<rparr>"
      by blast
    have "piecesLoop minChunk maxChunk rid (p # ps) (cms, r)
          = piecesLoop minChunk maxChunk rid ps (?cms1, ?r1)"
      using True k0 by (simp add: Let_def)
    with IH maps lg' show ?thesis by (intro exI [of _ lg']) simp
  next
    case False
    from Cons.IH [OF Cons.prems, of r] obtain lg where
      IH: "piecesLoop minChunk maxChunk rid ps (cms, r) =
        Return (map (\<lambda>k. putAll (cms ! k) (piecesOf rid ps (minChunk + of_nat k))) [0..<length cms],
                r\<lparr>renterLog := renterLog r @ lg\<rparr>)"
      by blast
    have maps: "map (\<lambda>k. putAll (cms ! k) (piecesOf rid ps (minChunk + of_nat k))) [0..<length cms]
        = map (\<lambda>k. putAll (cms ! k) (piecesOf rid (p # ps) (minChunk + of_nat k))) [0..<length cms]"
    proof (rule map_cong)
      show "[0..<length cms] = [0..<length cms]" by simp
    next
      fix k assume "k \<in> set [0..<length cms]"
      then have kl: "k \<le> unat (maxChunk - minChunk)" using Cons.prems(2) by auto
      have "Chunk p \<noteq> minChunk + of_nat k"
        using index_in_range [OF Cons.prems(1) kl] False by auto
      then show "putAll (cms ! k) (piecesOf rid ps (minChunk + of_nat k))
            = putAll (cms ! k) (piecesOf rid (p # ps) (minChunk + of_nat k))"
        by (simp add: piecesOf_def)
    qed
    have "piecesLoop minChunk maxChunk rid (p # ps) (cms, r)
          = piecesLoop minChunk maxChunk rid ps (cms, r)"
      using False by auto
    with IH maps show ?thesis by (intro exI [of _ lg]) simp
  qed
qed

lemma putAll_append: "putAll (putAll m xs) ys = putAll m (xs @ ys)"
  by (simp add: putAll_def)

lemma contractsLoop_run:
  "minChunk \<le> maxChunk \<Longrightarrow> length cms = unat (maxChunk - minChunk) + 1 \<Longrightarrow>
   \<exists>lg. contractsLoop minChunk maxChunk contracts (cms, r) =
     Return (map (\<lambda>k. putAll (cms ! k) (chunkPieces (ResolveID r) contracts (minChunk + of_nat k)))
               [0..<length cms],
             r\<lparr>renterLog := renterLog r @ lg\<rparr>)"
proof (induction contracts arbitrary: cms r)
  case Nil
  have "map (\<lambda>k. cms ! k) [0..<length cms] = cms" by (rule map_nth)
  then show ?case
    by (intro exI [of _ "[]"]) (simp add: putAll_def chunkPieces_def)
next
  case (Cons x contracts)
  obtain cid contract where x: "x = (cid, contract)" by (cases x)
  let ?cms1 = "map (\<lambda>k. putAll (cms ! k) (piecesOf (ResolveID r cid) (Pieces contract) (minChunk + of_nat k)))
                 [0..<length cms]"
  from piecesLoop_run [OF Cons.prems, of "ResolveID r cid" "Pieces contract" r] obtain lg1 where
    p: "piecesLoop minChunk maxChunk (ResolveID r cid) (Pieces contract) (cms, r) =
          Return (?cms1, r\<lparr>renterLog := renterLog r @ lg1\<rparr>)"
    by blast
  have len1: "length ?cms1 = unat (maxChunk - minChunk) + 1" using Cons.prems(2) by simp
  from Cons.IH [OF Cons.prems(1) len1, of "r\<lparr>renterLog := renterLog r @ lg1\<rparr>"] obtain lg2 where
    IH: "contractsLoop minChunk maxChunk contracts (?cms1, r\<lparr>renterLog := renterLog r @ lg1\<rparr>) =
      Return (map (\<lambda>k. putAll (?cms1 ! k) (chunkPieces (ResolveID r) contracts (minChunk + of_nat k)))
                [0..<length ?cms1],
              r\<lparr>renterLog := renterLog r @ lg1 @ lg2\<rparr>)"
    by auto
  have maps: "map (\<lambda>k. putAll (?cms1 ! k) (chunkPieces (ResolveID r) contracts (minChunk + of_nat k)))
                [0..<length ?cms1]
            = map (\<lambda>k. putAll (cms ! k) (chunkPieces (ResolveID r) (x # contracts) (minChunk + of_nat k)))
                [0..<length cms]"
    by (rule map_cong) (simp_all add: x chunkPieces_def putAll_append)
  show ?case
    using p IH maps by (intro exI [of _ "lg1 @ lg2"]) (simp add: x)
qed

subsection \<open>newDownload on a validated download\<close>

lemma validated_end:
  assumes "validated params f"
  shows "unat (params_offset params + params_length params)
         = unat (params_offset params) + unat (params_length params)"
proof -
  have "unat (file_size f) < 2 ^ 64" using unsigned_less [of "file_size f"] by simp
  with assms have "unat (params_offset params) + unat (params_length params) < 2 ^ LENGTH(64)"
    by (simp add: validated_def)
  then show ?thesis by (simp only: unat_add_lem)
qed

lemma validated_last:
  assumes "validated params f"
  shows "unat (params_offset params + params_length params - 1)
         = unat (params_offset params) + unat (params_length params) - 1"
proof -
  have "1 \<le> params_offset params + params_length params"
    using assms validated_end [OF assms] by (simp add: word_le_nat_alt validated_def)
  then show ?thesis using validated_end [OF assms] by (simp add: unat_sub)
qed

lemma validated_minChunk:
  "unat (minChunkOf params f) = unat (params_offset params) div unat (file_staticChunkSize f)"
  by (simp add: minChunkOf_def unat_div)

lemma validated_maxChunk:
  assumes "validated params f"
  shows "unat (maxChunkOf params f)
         = (unat (params_offset params) + unat (params_length params) - 1)
             div unat (file_staticChunkSize f)"
  by (simp add: maxChunkOf_def unat_div validated_last [OF assms])

lemma validated_min_le_max:
  assumes "validated params f"
  shows "minChunkOf params f \<le> maxChunkOf params f"
proof -
  have "unat (params_offset params) \<le> unat (params_offset params) + unat (params_length params) - 1"
    using assms unfolding validated_def by linarith
  then show ?thesis
    by (simp add: word_le_nat_alt validated_minChunk validated_maxChunk [OF assms] div_le_mono)
qed

lemma validated_max_bound:
  assumes "validated params f"
  shows "unat (maxChunkOf params f) + 1 < 2 ^ 64"
proof -
  have "unat (file_size f) < 2 ^ 64" using unsigned_less [of "file_size f"] by simp
  with assms have "unat (params_offset params) + unat (params_length params) - 1 < 2 ^ 64 - 1"
    unfolding validated_def by linarith
  moreover have "unat (maxChunkOf params f)
       \<le> unat (params_offset params) + unat (params_length params) - 1"
    by (simp add: validated_maxChunk [OF assms] div_le_dividend)
  ultimately show ?thesis by linarith
qed

lemma validated_count:
  assumes "validated params f"
  shows "unat (maxChunkOf params f - minChunkOf params f + 1) = chunkCount params f"
proof -
  have "unat (maxChunkOf params f - minChunkOf params f) \<le> unat (maxChunkOf params f)"
    using validated_min_le_max [OF assms] by (simp add: unat_sub)
  with validated_max_bound [OF assms]
  have "unat (maxChunkOf params f - minChunkOf params f) + unat (1 :: uint64) < 2 ^ LENGTH(64)"
    by simp
  then have "unat (maxChunkOf params f - minChunkOf params f + 1)
             = unat (maxChunkOf params f - minChunkOf params f) + unat (1 :: uint64)"
    by (simp only: unat_add_lem)
  then show ?thesis by (simp add: chunkCount_def)
qed

lemma validated_count_sum:
  assumes "validated params f"
  shows "unat (minChunkOf params f) + chunkCount params f = unat (maxChunkOf params f) + 1"
  using validated_min_le_max [OF assms]
  by (simp add: chunkCount_def unat_sub word_le_nat_alt)

lemma newDownload_validated:
  assumes v: "validated params f"
  shows "\<exists>lg. newDownload r params now =
     Some (Return (Inr (length (downloads r)),
       r\<lparr>renterLog := renterLog r @ lg,
         downloadHeap := downloadHeap r @ jobsOf r params f,
         newDownloads := True,
         downloads := downloads r @ [downloadOf params f now]\<rparr>))"
proof -
  let ?min = "minChunkOf params f" and ?max = "maxChunkOf params f"
  let ?n = "chunkCount params f"
  let ?cms0 = "replicate ?n (Map.empty :: chunkMap)"
  have le: "?min \<le> ?max" by (rule validated_min_le_max [OF v])
  have len0: "length ?cms0 = unat (?max - ?min) + 1" by (simp add: chunkCount_def)
  from contractsLoop_run [OF le len0, of "file_contracts f" r] obtain lg where
    c: "contractsLoop ?min ?max (file_contracts f) (?cms0, r) =
          Return (map (\<lambda>k. putAll (?cms0 ! k) (chunkPieces (ResolveID r) (file_contracts f) (?min + of_nat k)))
                    [0..<length ?cms0],
                  r\<lparr>renterLog := renterLog r @ lg\<rparr>)"
    by blast
  have cms: "map (\<lambda>k. putAll (?cms0 ! k) (chunkPieces (ResolveID r) (file_contracts f) (?min + of_nat k)))
                    [0..<?n] = chunkMapsOf r params f"
    unfolding chunkMapsOf_def by (rule map_cong) simp_all
  have lencms: "unat (?max - ?min) < length (chunkMapsOf r params f)"
    by (simp add: chunkMapsOf_def chunkCount_def)
  let ?d0 = "(downloadOf params f now)\<lparr>chunksRemaining := 0\<rparr>"
  let ?r1 = "r\<lparr>renterLog := renterLog r @ lg\<rparr>"
  have q: "queueChunks params f (chunkMapsOf r params f) ?min ?max (length (downloads r)) ?min (?r1, ?d0, 0)
     = Some (Return
       (?r1\<lparr>downloadHeap := downloadHeap ?r1 @ jobsOf r params f,
          newDownloads := (?n \<noteq> 0 \<or> newDownloads ?r1)\<rparr>,
        ?d0\<lparr>chunksRemaining := chunksRemaining ?d0 + of_nat ?n\<rparr>,
        0 + sum_list (map udc_staticFetchLength (jobsOf r params f))))"
    unfolding jobsOf_def
    by (rule queueChunks_run [OF validated_count_sum [OF v] validated_max_bound [OF v] _ lencms]) simp
  have n0: "?n \<noteq> 0" by (simp add: chunkCount_def)
  have pre: "params_file params = Some f" "params_length params \<noteq> 0"
    "\<not> params_offset params + params_length params > file_size f"
    "file_staticChunkSize f \<noteq> 0"
    using v validated_end [OF v] by (auto simp: validated_def word_le_nat_alt word_less_nat_alt unat_eq_0)
  have d0: "?d0 = \<lparr>atomicDataReceived = 0, atomicTotalDataTransfered = 0,
      chunksRemaining = 0,
      completeChan = ChanOpen, err = None, endTime = 0, staticStartTime = now,
      destination = params_destination params,
      destinationString = params_destinationString params,
      destinationType = [],
      staticLength = params_length params, staticOffset = params_offset params,
      staticSiaPath = file_name f,
      staticLatencyTarget = params_latencyTarget params,
      staticOverdrive = params_overdrive params,
      staticPriority = params_priority params\<rparr>"
    by (simp add: downloadOf_def)
  have cnt: "unat (?max - ?min + 1) = ?n" by (rule validated_count [OF v])
  show ?thesis
    apply (rule exI [of _ lg])
    apply (simp add: newDownload_def pre Let_def)
    apply (fold minChunkOf_def maxChunkOf_def)
    apply (simp add: cnt c cms)
    apply (fold d0)
    apply (simp add: q n0)
    apply (simp add: downloadOf_def)
    done
qed

subsection \<open>The chunks of a validated download\<close>

lemma chunkJobs_length [simp]:
  "length (chunkJobs params f cms minChunk maxChunk dp n i wo) = n"
  by (induction n arbitrary: i wo) simp_all

lemma chunkJobs_nth:
  "k < n \<Longrightarrow>
   chunkJobs params f cms minChunk maxChunk dp n i wo ! k =
     newChunk params f (cms ! unat (i + of_nat k - minChunk)) minChunk maxChunk dp (i + of_nat k)
       (wo + sum_list (map udc_staticFetchLength
                         (take k (chunkJobs params f cms minChunk maxChunk dp n i wo))))"
proof (induction n arbitrary: i wo k)
  case 0
  then show ?case by simp
next
  case (Suc n)
  show ?case
  proof (cases k)
    case 0
    then show ?thesis by simp
  next
    case (Suc k')
    with Suc.prems have "k' < n" by simp
    from Suc.IH [OF this] Suc show ?thesis
      by (simp add: add.assoc add.commute [of 1])
  qed
qed

lemma chunkCount_bound:
  assumes "validated params f"
  shows "chunkCount params f < 2 ^ 64"
  using validated_count_sum [OF assms] validated_max_bound [OF assms] by linarith

lemma jobsOf_length:
  "length (jobsOf r params f) = chunkCount params f"
  by (simp add: jobsOf_def)

lemma jobsOf_nth:
  assumes v: "validated params f" and k: "k < chunkCount params f"
  shows "jobsOf r params f ! k =
     newChunk params f
       (putAll Map.empty (chunkPieces (ResolveID r) (file_contracts f) (minChunkOf params f + of_nat k)))
       (minChunkOf params f) (maxChunkOf params f) (length (downloads r))
       (minChunkOf params f + of_nat k)
       (sum_list (map udc_staticFetchLength (take k (jobsOf r params f))))"
proof -
  have "k < 2 ^ 64" using k chunkCount_bound [OF v] by linarith
  then have u: "unat (of_nat k :: uint64) = k" by (simp add: unat_of_nat)
  have "chunkMapsOf r params f ! k =
    putAll Map.empty (chunkPieces (ResolveID r) (file_contracts f) (minChunkOf params f + of_nat k))"
    using k by (simp add: chunkMapsOf_def)
  then show ?thesis
    unfolding jobsOf_def using chunkJobs_nth [OF k] u by simp
qed

lemma job_index:
  assumes v: "validated params f" and k: "k < chunkCount params f"
  shows "unat (minChunkOf params f + of_nat k) = unat (minChunkOf params f) + k"
    and "minChunkOf params f \<le> minChunkOf params f + of_nat k"
    and "minChunkOf params f + of_nat k \<le> maxChunkOf params f"
    and "(minChunkOf params f + of_nat k = minChunkOf params f) = (k = 0)"
    and "(minChunkOf params f + of_nat k = maxChunkOf params f) = (k + 1 = chunkCount params f)"
proof -
  have le: "minChunkOf params f \<le> maxChunkOf params f" by (rule validated_min_le_max [OF v])
  have kl: "k \<le> unat (maxChunkOf params f - minChunkOf params f)"
    using k by (simp add: chunkCount_def)
  show u: "unat (minChunkOf params f + of_nat k) = unat (minChunkOf params f) + k"
    by (rule unat_offset_index [OF le kl])
  show "minChunkOf params f \<le> minChunkOf params f + of_nat k"
    and "minChunkOf params f + of_nat k \<le> maxChunkOf params f"
    using index_in_range [OF le kl] by simp_all
  show "(minChunkOf params f + of_nat k = minChunkOf params f) = (k = 0)"
    using u by (auto simp: word_unat_eq_iff)
  show "(minChunkOf params f + of_nat k = maxChunkOf params f) = (k + 1 = chunkCount params f)"
    using u le by (auto simp: word_unat_eq_iff chunkCount_def unat_sub word_le_nat_alt)
qed

lemma newChunk_fields:
  "udc_staticChunkIndex (newChunk params f cm minChunk maxChunk dp i wo) = i"
  "udc_staticChunkMap (newChunk params f cm minChunk maxChunk dp i wo) = cm"
  "udc_staticLatencyTarget (newChunk params f cm minChunk maxChunk dp i wo)
     = params_latencyTarget params + 25 * (i - minChunk)"
  "udc_staticFetchOffset (newChunk params f cm minChunk maxChunk dp i wo)
     = (if i = minChunk then params_offset params mod file_staticChunkSize f else 0)"
  "udc_staticFetchLength (newChunk params f cm minChunk maxChunk dp i wo)
     = (if i = maxChunk \<and> (params_length params + params_offset params) mod file_staticChunkSize f \<noteq> 0
        then (params_length params + params_offset params) mod file_staticChunkSize f
             - (if i = minChunk then params_offset params mod file_staticChunkSize f else 0)
        else file_staticChunkSize f
             - (if i = minChunk then params_offset params mod file_staticChunkSize f else 0))"
  "udc_staticWriteOffset (newChunk params f cm minChunk maxChunk dp i wo) = wo"
  "udc_staticOverdrive (newChunk params f cm minChunk maxChunk dp i wo)
     = (if i < 2 then params_overdrive params else 0)"
  "udc_download (newChunk params f cm minChunk maxChunk dp i wo) = dp"
  by (auto simp: newChunk_def Let_def)

lemma pred_div:
  fixes b c :: nat
  assumes "0 < c" "b mod c \<noteq> 0"
  shows "(b - 1) div c = b div c"
proof -
  have "b = b mod c + b div c * c" by simp
  then have "b - 1 = (b mod c - 1) + b div c * c" using assms(2) by linarith
  then have "(b - 1) div c = ((b mod c - 1) + b div c * c) div c" by simp
  also have "\<dots> = b div c + (b mod c - 1) div c" using assms(1) by simp
  also have "(b mod c - 1) div c = 0"
    using assms(1) by (simp add: less_imp_diff_less)
  finally show ?thesis by simp
qed

lemma mod_le_same_div:
  fixes a b c :: nat
  assumes "a div c = b div c" "a \<le> b"
  shows "a mod c \<le> b mod c"
proof -
  have "a mod c = a - c * (a div c)" by (simp add: minus_mult_div_eq_mod)
  moreover have "b mod c = b - c * (a div c)" by (simp add: assms(1) minus_mult_div_eq_mod)
  ultimately show ?thesis using assms(2) by (simp add: diff_le_mono)
qed

lemma list_of_length3: "length xs = 3 \<Longrightarrow> xs = [xs ! 0, xs ! 1, xs ! 2]"
  by (auto simp: length_Suc_conv numeral_3_eq_3)

lemma validated_facts:
  assumes v: "validated params f"
  shows "unat ((params_length params + params_offset params) mod file_staticChunkSize f)
         = (unat (params_offset params) + unat (params_length params)) mod unat (file_staticChunkSize f)"
    and "0 < unat (file_staticChunkSize f)"
    and "unat (params_offset params mod file_staticChunkSize f)
         = unat (params_offset params) mod unat (file_staticChunkSize f)"
proof -
  show "unat ((params_length params + params_offset params) mod file_staticChunkSize f)
         = (unat (params_offset params) + unat (params_length params)) mod unat (file_staticChunkSize f)"
    using validated_end [OF v] by (simp add: unat_mod add.commute)
  show "0 < unat (file_staticChunkSize f)"
    using v by (simp add: validated_def unat_gt_0)
  show "unat (params_offset params mod file_staticChunkSize f)
         = unat (params_offset params) mod unat (file_staticChunkSize f)"
    by (simp add: unat_mod)
qed

lemma single_chunk_offset_le:
  assumes v: "validated params f" and one: "chunkCount params f = 1"
    and nz: "(params_length params + params_offset params) mod file_staticChunkSize f \<noteq> 0"
  shows "params_offset params mod file_staticChunkSize f
         \<le> (params_length params + params_offset params) mod file_staticChunkSize f"
proof -
  let ?a = "unat (params_offset params)" and ?l = "unat (params_length params)"
  let ?c = "unat (file_staticChunkSize f)"
  have c: "0 < ?c" by (rule validated_facts(2) [OF v])
  have "unat (minChunkOf params f) = unat (maxChunkOf params f)"
    using validated_count_sum [OF v] one by simp
  then have eq: "?a div ?c = (?a + ?l - 1) div ?c"
    by (simp add: validated_minChunk validated_maxChunk [OF v])
  have nz': "(?a + ?l) mod ?c \<noteq> 0"
    using nz validated_facts(1) [OF v] by (simp add: unat_eq_0 [symmetric])
  have "?a div ?c = (?a + ?l) div ?c" using eq pred_div [OF c nz'] by simp
  then have "?a mod ?c \<le> (?a + ?l) mod ?c" by (rule mod_le_same_div) simp
  then show ?thesis
    by (simp add: word_le_nat_alt validated_facts [OF v])
qed

lemma newDownload_enqueues:
  assumes v: "validated params f"
  shows "\<exists>r'. newDownload r params now = Some (Return (Inr (length (downloads r)), r'))
           \<and> downloadHeap r' = downloadHeap r @ jobsOf r params f
           \<and> downloads r' = downloads r @ [downloadOf params f now]
           \<and> downloadHistory r' = downloadHistory r
           \<and> files r' = files r"
proof -
  from newDownload_validated [OF v, of r now] obtain lg where
    "newDownload r params now =
     Some (Return (Inr (length (downloads r)),
       r\<lparr>renterLog := renterLog r @ lg,
         downloadHeap := downloadHeap r @ jobsOf r params f,
         newDownloads := True,
         downloads := downloads r @ [downloadOf params f now]\<rparr>))"
    by blast
  then show ?thesis by simp
qed

lemma job_fetchOffset:
  assumes v: "validated params f" and k: "k < chunkCount params f"
  shows "udc_staticFetchOffset (jobsOf r params f ! k)
         = (if k = 0 then params_offset params mod file_staticChunkSize f else 0)"
  by (simp only: jobsOf_nth [OF v k] newChunk_fields job_index(4) [OF v k])

lemma job_fetchLength:
  assumes v: "validated params f" and k: "k < chunkCount params f"
  shows "udc_staticFetchLength (jobsOf r params f ! k)
         = (if k + 1 = chunkCount params f
               \<and> (params_length params + params_offset params) mod file_staticChunkSize f \<noteq> 0
            then (params_length params + params_offset params) mod file_staticChunkSize f
                 - udc_staticFetchOffset (jobsOf r params f ! k)
            else file_staticChunkSize f - udc_staticFetchOffset (jobsOf r params f ! k))"
  by (simp only: jobsOf_nth [OF v k] newChunk_fields job_index(4,5) [OF v k])

lemma job_fetchOffset_le:
  assumes v: "validated params f" and k: "k < chunkCount params f"
  shows "udc_staticFetchOffset (jobsOf r params f ! k)
         \<le> (if k + 1 = chunkCount params f
               \<and> (params_length params + params_offset params) mod file_staticChunkSize f \<noteq> 0
            then (params_length params + params_offset params) mod file_staticChunkSize f
            else file_staticChunkSize f)"
proof (cases "k = 0")
  case True
  have lt: "params_offset params mod file_staticChunkSize f < file_staticChunkSize f"
    using v by (simp add: validated_def word_mod_less_divisor word_greater_zero_iff)
  have fo: "udc_staticFetchOffset (jobsOf r params f ! k)
            = params_offset params mod file_staticChunkSize f"
    using job_fetchOffset [OF v k, of r] True by simp
  show ?thesis
  proof (cases "k + 1 = chunkCount params f
               \<and> (params_length params + params_offset params) mod file_staticChunkSize f \<noteq> 0")
    case True
    with \<open>k = 0\<close> have "chunkCount params f = 1" by simp
    from single_chunk_offset_le [OF v this conjunct2 [OF True]]
    have le: "params_offset params mod file_staticChunkSize f
         \<le> (params_length params + params_offset params) mod file_staticChunkSize f"
      .
    show ?thesis
      by (simp only: fo if_P [OF True]) (rule le)
  next
    case False
    show ?thesis
      by (simp only: fo if_not_P [OF False]) (rule order.strict_implies_order [OF lt])
  qed
next
  case False
  then show ?thesis by (simp add: job_fetchOffset [OF v k])
qed

lemma job_fetch_exact:
  assumes v: "validated params f" and k: "k < chunkCount params f"
  defines "i \<equiv> minChunkOf params f + of_nat k"
  defines "lst \<equiv> (i = maxChunkOf params f
             \<and> (params_offset params + params_length params) mod file_staticChunkSize f \<noteq> 0)"
  shows "udc_staticChunkIndex (jobsOf r params f ! k) = i"
    and "udc_staticFetchOffset (jobsOf r params f ! k)
         = (if i = minChunkOf params f then params_offset params mod file_staticChunkSize f else 0)"
    and "udc_staticFetchLength (jobsOf r params f ! k)
         = (if lst
            then (params_offset params + params_length params) mod file_staticChunkSize f
                 - udc_staticFetchOffset (jobsOf r params f ! k)
            else file_staticChunkSize f - udc_staticFetchOffset (jobsOf r params f ! k))"
    and "unat (udc_staticFetchLength (jobsOf r params f ! k))
         = (if lst
            then (unat (params_offset params) + unat (params_length params))
                   mod unat (file_staticChunkSize f)
                 - unat (udc_staticFetchOffset (jobsOf r params f ! k))
            else unat (file_staticChunkSize f) - unat (udc_staticFetchOffset (jobsOf r params f ! k)))"
    and "unat (udc_staticFetchOffset (jobsOf r params f ! k))
         \<le> (if lst
            then (unat (params_offset params) + unat (params_length params))
                   mod unat (file_staticChunkSize f)
            else unat (file_staticChunkSize f))"
proof -
  let ?j = "jobsOf r params f ! k"
  let ?E = "(params_offset params + params_length params) mod file_staticChunkSize f"
  have comm: "params_length params + params_offset params = params_offset params + params_length params"
    by (rule add.commute)
  have lastiff: "lst = (k + 1 = chunkCount params f \<and> ?E \<noteq> 0)"
    unfolding lst_def i_def by (simp only: job_index(5) [OF v k])
  have firstiff: "(i = minChunkOf params f) = (k = 0)"
    unfolding i_def by (rule job_index(4) [OF v k])
  show "udc_staticChunkIndex ?j = i"
    unfolding i_def by (simp only: jobsOf_nth [OF v k] newChunk_fields)
  show fo: "udc_staticFetchOffset ?j
         = (if i = minChunkOf params f then params_offset params mod file_staticChunkSize f else 0)"
    by (simp only: firstiff job_fetchOffset [OF v k])
  show fl: "udc_staticFetchLength ?j
         = (if lst then ?E - udc_staticFetchOffset ?j
            else file_staticChunkSize f - udc_staticFetchOffset ?j)"
    by (simp only: lastiff job_fetchLength [OF v k] comm)
  have le: "udc_staticFetchOffset ?j \<le> (if lst then ?E else file_staticChunkSize f)"
    using job_fetchOffset_le [OF v k, of r] by (simp only: lastiff comm)
  have uE: "unat ?E = (unat (params_offset params) + unat (params_length params))
                   mod unat (file_staticChunkSize f)"
    using validated_facts(1) [OF v] by (simp only: comm)
  show "unat (udc_staticFetchOffset ?j)
         \<le> (if lst
            then (unat (params_offset params) + unat (params_length params))
                   mod unat (file_staticChunkSize f)
            else unat (file_staticChunkSize f))"
    using le uE by (cases lst) (simp_all add: word_le_nat_alt)
  show "unat (udc_staticFetchLength ?j)
         = (if lst
            then (unat (params_offset params) + unat (params_length params))
                   mod unat (file_staticChunkSize f)
                 - unat (udc_staticFetchOffset ?j)
            else unat (file_staticChunkSize f) - unat (udc_staticFetchOffset ?j))"
    using le uE fl by (cases lst) (simp_all add: unat_sub)
qed


lemma enqueued_validated:
  assumes "validated params f" "downloadHeap r = []"
  shows "enqueued (newDownload r params now) = jobsOf r params f"
  using newDownload_enqueues [OF assms(1), of r now] assms(2)
  by (auto simp: enqueued_def)

lemma map_jobsOf:
  "map g (jobsOf r params f) = map (\<lambda>k. g (jobsOf r params f ! k)) [0..<chunkCount params f]"
  by (simp add: list_eq_iff_nth_eq jobsOf_length)

lemma job_overdrive:
  assumes v: "validated params f" and k: "k < chunkCount params f"
  shows "udc_staticOverdrive (jobsOf r params f ! k)
         = (if minChunkOf params f + of_nat k < 2 then params_overdrive params else 0)"
  by (simp only: jobsOf_nth [OF v k] newChunk_fields)

lemma job_chunkIndex:
  assumes v: "validated params f" and k: "k < chunkCount params f"
  shows "udc_staticChunkIndex (jobsOf r params f ! k) = minChunkOf params f + of_nat k"
  by (simp only: jobsOf_nth [OF v k] newChunk_fields)

lemma job_latencyTarget:
  assumes v: "validated params f" and k: "k < chunkCount params f"
  shows "udc_staticLatencyTarget (jobsOf r params f ! k)
         = params_latencyTarget params + 25 * (minChunkOf params f + of_nat k - minChunkOf params f)"
    and "udc_staticLatencyTarget (jobsOf r params f ! k)
         = params_latencyTarget params + 25 * of_nat k"
proof -
  show "udc_staticLatencyTarget (jobsOf r params f ! k)
         = params_latencyTarget params + 25 * (minChunkOf params f + of_nat k - minChunkOf params f)"
    by (simp only: jobsOf_nth [OF v k] newChunk_fields)
  then show "udc_staticLatencyTarget (jobsOf r params f ! k)
         = params_latencyTarget params + 25 * of_nat k"
    by simp
qed


lemma latency_no_wrap:
  fixes base :: uint64
  assumes "unat base + 25 * k < 2 ^ 64"
  shows "unat (base + 25 * of_nat k) = unat base + 25 * k"
proof -
  have k: "k < 2 ^ 64" using assms by linarith
  then have uk: "unat (of_nat k :: uint64) = k" by (simp add: unat_of_nat)
  have k25: "25 * k < 2 ^ 64" using assms by linarith
  have "(25 * of_nat k :: uint64) = of_nat (25 * k)" by simp
  then have m: "unat (25 * of_nat k :: uint64) = 25 * k"
    using k25 by (simp only: unat_of_nat) simp
  have "unat base + unat (25 * of_nat k :: uint64) < 2 ^ LENGTH(64)"
    using assms m by simp
  then have "unat (base + 25 * of_nat k) = unat base + unat (25 * of_nat k :: uint64)"
    by (simp only: unat_add_lem)
  then show ?thesis by (simp only: m)
qed


lemma putAll_snoc: "putAll m (xs @ [x]) = (putAll m xs)(fst x \<mapsto> snd x)"
  by (simp add: putAll_def)

lemma putAll_map_of: "putAll m xs = m ++ map_of (rev xs)"
proof (induction xs rule: rev_induct)
  case Nil
  then show ?case by (simp add: putAll_def)
next
  case (snoc x xs)
  have "map_of (rev (xs @ [x])) = (map_of (rev xs))(fst x \<mapsto> snd x)"
    by (cases x) simp
  then show ?case
    by (simp only: putAll_snoc snoc.IH map_add_upd)
qed

lemma putAll_Some:
  assumes "putAll m xs a = Some b"
  shows "m a = Some b \<or> (a, b) \<in> set xs"
proof -
  from assms have "map_of (rev xs) a = Some b \<or> m a = Some b"
    by (auto simp: putAll_map_of map_add_Some_iff)
  then show ?thesis
    using map_of_SomeD [of "rev xs" a b] by auto
qed

lemma putAll_dom: "dom (putAll m xs) = dom m \<union> fst ` set xs"
  by (auto simp: putAll_map_of dom_map_of_conv_image_fst)

lemma putAll_unique:
  assumes in_xs: "(a, b) \<in> set xs" and uniq: "\<forall>b'. (a, b') \<in> set xs \<longrightarrow> b' = b"
  shows "putAll m xs a = Some b"
proof -
  have "a \<in> fst ` set (rev xs)" using in_xs by (auto intro: image_eqI [where x = "(a, b)"])
  then have "a \<in> dom (map_of (rev xs))" by (simp only: dom_map_of_conv_image_fst)
  then obtain b' where b': "map_of (rev xs) a = Some b'" by blast
  then have "(a, b') \<in> set xs" using map_of_SomeD [of "rev xs" a b'] by simp
  with uniq have "b' = b" by blast
  with b' show ?thesis by (simp add: putAll_map_of map_add_find_right)
qed

lemma set_chunkPieces:
  "set (chunkPieces resolve contracts c) =
     {(resolve cid, pieceInfo p) | cid contract p.
        (cid, contract) \<in> set contracts \<and> p \<in> set (Pieces contract) \<and> Chunk p = c}"
  by (auto simp: chunkPieces_def piecesOf_def) force

lemma job_chunkMap:
  assumes v: "validated params f" and k: "k < chunkCount params f"
  shows "udc_staticChunkMap (jobsOf r params f ! k)
         = putAll Map.empty
             (chunkPieces (ResolveID r) (file_contracts f) (minChunkOf params f + of_nat k))"
  by (simp only: jobsOf_nth [OF v k] newChunk_fields)

lemma chunksRemaining_downloadOf:
  assumes v: "validated params f"
  shows "chunksRemaining (downloadOf params f now) = maxChunkOf params f - minChunkOf params f + 1"
    and "unat (chunksRemaining (downloadOf params f now)) = chunkCount params f"
proof -
  have u: "unat (of_nat (chunkCount params f) :: uint64) = chunkCount params f"
    using chunkCount_bound [OF v] by (simp add: unat_of_nat)
  show "unat (chunksRemaining (downloadOf params f now)) = chunkCount params f"
    using u by (simp add: downloadOf_def)
  show "chunksRemaining (downloadOf params f now) = maxChunkOf params f - minChunkOf params f + 1"
    using u validated_count [OF v] by (simp add: downloadOf_def word_unat_eq_iff)
qed


text \<open>Facts about the example file.\<close>

lemma ex_keys0:
  "{ResolveID exRenter cid | cid contract p.
      (cid, contract) \<in> set (file_contracts exFile) \<and> p \<in> set (Pieces contract) \<and> Chunk p = 0} = {1}"
  by (auto simp: exFile_def exRenter_def conj_disj_distribR ex_disj_distrib)

lemma ex_keys1:
  "{ResolveID exRenter cid | cid contract p.
      (cid, contract) \<in> set (file_contracts exFile) \<and> p \<in> set (Pieces contract) \<and> Chunk p = 1} = {}"
  by (auto simp: exFile_def exRenter_def)

lemma ex_keys2:
  "{ResolveID exRenter cid | cid contract p.
      (cid, contract) \<in> set (file_contracts exFile) \<and> p \<in> set (Pieces contract) \<and> Chunk p = 2} = {1, 2}"
  by (auto simp: exFile_def exRenter_def conj_disj_distribR ex_disj_distrib)

lemma ex_piece:
  "(2, \<lparr>Pieces = [\<lparr>Chunk = 2, Piece = 1, MerkleRoot = 22\<rparr>]\<rparr>) \<in> set (file_contracts exFile)
   \<and> \<lparr>Chunk = 2, Piece = 1, MerkleRoot = 22\<rparr>
        \<in> set (Pieces \<lparr>Pieces = [\<lparr>Chunk = 2, Piece = 1, MerkleRoot = 22\<rparr>]\<rparr>)
   \<and> Chunk \<lparr>Chunk = 2, Piece = 1, MerkleRoot = 22\<rparr> = 2
   \<and> (\<forall>cid' contract' p'.
         (cid', contract') \<in> set (file_contracts exFile) \<and> p' \<in> set (Pieces contract')
         \<and> Chunk p' = 2 \<and> ResolveID exRenter cid' = ResolveID exRenter 2
         \<longrightarrow> Piece p' = Piece \<lparr>Chunk = 2, Piece = 1, MerkleRoot = 22\<rparr>
             \<and> MerkleRoot p' = MerkleRoot \<lparr>Chunk = 2, Piece = 1, MerkleRoot = 22\<rparr>)"
  by (auto simp: exFile_def exRenter_def)

subsection \<open>Write offsets\<close>

lemma sint_small:
  fixes w :: int64
  assumes "unat w < 2 ^ 63"
  shows "sint w = int (unat w)"
proof -
  have "int (unat w) < int (2 ^ 63)" using assms by (simp only: of_nat_less_iff)
  then have lt: "int (unat w) < 2 ^ 63" by simp
  have ge: "- (2 ^ 63) \<le> int (unat w)" by (rule order_trans [of _ 0]) simp_all
  have "signed_take_bit 63 (int (unat w)) = int (unat w)"
    by (rule signed_take_bit_int_eq_self [OF ge lt])
  moreover have "sint w = signed_take_bit (LENGTH(64) - Suc 0) (uint w)" by (rule sint_uint)
  moreover have "LENGTH(64) - Suc 0 = 63" by simp
  moreover have "uint w = int (unat w)" by (rule uint_nat)
  ultimately show ?thesis by (simp only:)
qed

lemma unat_sum_list:
  fixes ws :: "uint64 list"
  assumes "sum_list (map unat ws) < 2 ^ 64"
  shows "unat (sum_list ws) = sum_list (map unat ws)"
  using assms
proof (induction ws)
  case Nil
  then show ?case by simp
next
  case (Cons w ws)
  then have "sum_list (map unat ws) < 2 ^ 64" by simp
  with Cons.IH have IH: "unat (sum_list ws) = sum_list (map unat ws)" by simp
  have "unat w + unat (sum_list ws) < 2 ^ LENGTH(64)" using Cons.prems IH by simp
  then have "unat (w + sum_list ws) = unat w + unat (sum_list ws)"
    by (simp only: unat_add_lem)
  then show ?case using IH by simp
qed

lemma pred_div_dvd:
  fixes b c :: nat
  assumes "0 < c" "0 < b" "b mod c = 0"
  shows "b = ((b - 1) div c + 1) * c"
proof -
  from assms(3) have "c dvd b" by (simp add: mod_eq_0_iff_dvd)
  then obtain q where "b = c * q" ..
  then have q: "b = q * c" by (simp add: mult.commute)
  with assms(2) have q0: "0 < q" by (cases q) simp_all
  have "b - 1 = (c - 1) + (q - 1) * c"
    using q q0 assms(1) by (cases q) (simp_all add: algebra_simps)
  then have "(b - 1) div c = ((c - 1) + (q - 1) * c) div c" by (simp only:)
  also have "\<dots> = (q - 1) + (c - 1) div c" using assms(1) by (simp only: div_mult_self1)
  also have "(c - 1) div c = 0" using assms(1) by simp
  finally show ?thesis using q q0 by simp
qed

lemma job_fetchLength_unat:
  assumes v: "validated params f" and k: "k < chunkCount params f"
  defines "a \<equiv> unat (params_offset params)" and "l \<equiv> unat (params_length params)"
    and "c \<equiv> unat (file_staticChunkSize f)"
  shows "unat (udc_staticFetchLength (jobsOf r params f ! k))
         = (if k + 1 = chunkCount params f \<and> (a + l) mod c \<noteq> 0 then (a + l) mod c else c)
           - (if k = 0 then a mod c else 0)"
proof -
  let ?j = "jobsOf r params f ! k"
  let ?E = "(params_offset params + params_length params) mod file_staticChunkSize f"
  note e = job_fetch_exact [OF v k, of r]
  have uE: "unat ?E = (a + l) mod c"
    using validated_facts(1) [OF v] by (simp add: a_def l_def c_def add.commute)
  have lastiff: "(minChunkOf params f + of_nat k = maxChunkOf params f \<and> ?E \<noteq> 0)
                 = (k + 1 = chunkCount params f \<and> (a + l) mod c \<noteq> 0)"
    using uE by (simp only: job_index(5) [OF v k] unat_eq_0 [symmetric])
  have fo: "unat (udc_staticFetchOffset ?j) = (if k = 0 then a mod c else 0)"
    using job_fetchOffset [OF v k, of r] by (simp add: a_def c_def unat_mod)
  show ?thesis
    using e(4) unfolding lastiff fo by (simp add: a_def l_def c_def)
qed

lemma job_span:
  assumes v: "validated params f" and k: "k < chunkCount params f"
  shows "unat (udc_staticFetchLength (jobsOf r params f ! k))
         = chunkEnd params f k - chunkStart params f k"
    and "unat (params_offset params) \<le> chunkStart params f k"
    and "chunkStart params f k < chunkEnd params f k"
    and "chunkEnd params f k \<le> unat (params_offset params) + unat (params_length params)"
    and "k + 1 < chunkCount params f \<Longrightarrow> chunkEnd params f k = chunkStart params f (k + 1)"
proof -
  define a where "a = unat (params_offset params)"
  define l where "l = unat (params_length params)"
  define c where "c = unat (file_staticChunkSize f)"
  define m where "m = unat (minChunkOf params f)"
  define M where "M = unat (maxChunkOf params f)"
  define n where "n = chunkCount params f"
  have c0: "0 < c" unfolding c_def by (rule validated_facts(2) [OF v])
  have l0: "0 < l" using v by (simp add: l_def validated_def)
  have m: "m = a div c" by (simp add: m_def a_def c_def validated_minChunk)
  have M: "M = (a + l - 1) div c" by (simp add: M_def a_def l_def c_def validated_maxChunk [OF v])
  have n: "m + n = M + 1" unfolding m_def n_def M_def by (rule validated_count_sum [OF v])
  have kn: "k < n" using k by (simp add: n_def)
  have A: "a = m * c + a mod c" unfolding m by simp
  have B: "a mod c < c" using c0 by simp
  have Mle: "M * c \<le> a + l - 1" unfolding M by simp
  have tail: "a + l = M * c + (if (a + l) mod c \<noteq> 0 then (a + l) mod c else c)"
  proof (cases "(a + l) mod c \<noteq> 0")
    case True
    have "(a + l - 1) div c = (a + l) div c" by (rule pred_div [OF c0 True])
    then have "M = (a + l) div c" by (simp add: M)
    then show ?thesis using True by simp
  next
    case False
    then have "a + l = ((a + l - 1) div c + 1) * c"
      using pred_div_dvd [of c "a + l"] c0 l0 by simp
    then show ?thesis using False by (simp add: M)
  qed
  have fl: "unat (udc_staticFetchLength (jobsOf r params f ! k))
         = (if k + 1 = n \<and> (a + l) mod c \<noteq> 0 then (a + l) mod c else c)
           - (if k = 0 then a mod c else 0)"
    using job_fetchLength_unat [OF v k, of r] by (simp only: a_def l_def c_def n_def)
  have st: "chunkStart params f k = (if k = 0 then a else (m + k) * c)"
    by (simp add: chunkStart_def a_def m_def c_def)
  have st': "chunkStart params f (k + 1) = (m + k + 1) * c"
    by (simp add: chunkStart_def a_def m_def c_def)
  have en: "chunkEnd params f k = (if k + 1 = n then a + l else (m + k + 1) * c)"
    by (simp add: chunkEnd_def a_def l_def m_def c_def n_def)
  have kc: "0 < k \<Longrightarrow> c \<le> k * c" by simp
  have notlast: "(m + k + 1) * c \<le> M * c" if "k + 1 < n"
  proof -
    have "m + k + 1 \<le> M" using that n by linarith
    then show ?thesis by (rule mult_le_mono1)
  qed
  have last: "m + k = M" if "k + 1 = n" using that n by linarith
  show "unat (udc_staticFetchLength (jobsOf r params f ! k))
         = chunkEnd params f k - chunkStart params f k"
  proof (cases "k = 0")
    case True
    show ?thesis
    proof (cases "k + 1 = n")
      case l: True
      then have "m = M" using last True by simp
      then show ?thesis using True l A B tail
        unfolding fl st en by (auto split: if_splits)
    next
      case False
      then show ?thesis using True A B
        unfolding fl st en by (simp add: algebra_simps)
    qed
  next
    case False
    show ?thesis
    proof (cases "k + 1 = n")
      case l: True
      then have "(m + k) * c = M * c" using last by simp
      then show ?thesis using False l tail
        unfolding fl st en by (auto split: if_splits)
    next
      case False
      then show ?thesis using \<open>k \<noteq> 0\<close>
        unfolding fl st en by (simp add: algebra_simps)
    qed
  qed
  show "unat (params_offset params) \<le> chunkStart params f k"
  proof (cases "k = 0")
    case True
    then show ?thesis unfolding st by (simp add: a_def)
  next
    case False
    then have kc': "c \<le> k * c" using kc by simp
    have e: "(m + k) * c = m * c + k * c" by (simp add: algebra_simps)
    have "a \<le> (m + k) * c" using A B kc' unfolding e by linarith
    then show ?thesis using False unfolding st by (simp add: a_def)
  qed
  show "chunkStart params f k < chunkEnd params f k"
  proof (cases "k + 1 = n")
    case True
    have "(m + k) * c < a + l" using last [OF True] Mle l0 by simp
    then show ?thesis using True l0 unfolding st en by simp
  next
    case False
    have e: "(m + k + 1) * c = m * c + k * c + c" "(m + k) * c = m * c + k * c"
      by (simp_all add: algebra_simps)
    have "a < (m + k + 1) * c" using A B unfolding e by linarith
    moreover have "(m + k) * c < (m + k + 1) * c" using c0 unfolding e by linarith
    ultimately show ?thesis using False unfolding st en by (cases "k = 0") simp_all
  qed
  show "chunkEnd params f k \<le> unat (params_offset params) + unat (params_length params)"
  proof (cases "k + 1 = n")
    case True
    then show ?thesis unfolding en by (simp add: a_def l_def)
  next
    case False
    then have "k + 1 < n" using kn by simp
    from notlast [OF this] Mle show ?thesis using False
      unfolding en by (simp add: a_def l_def)
  qed
  show "chunkEnd params f k = chunkStart params f (k + 1)" if "k + 1 < chunkCount params f"
    using that unfolding en st' by (simp add: n_def)
qed

lemma job_cumulative:
  assumes v: "validated params f"
  shows "k < chunkCount params f \<Longrightarrow>
         sum_list (map (\<lambda>j. unat (udc_staticFetchLength j)) (take k (jobsOf r params f)))
         = chunkStart params f k - unat (params_offset params)"
proof (induction k)
  case 0
  then show ?case by (simp add: chunkStart_def)
next
  case (Suc k)
  then have k: "k < chunkCount params f" and k1: "k + 1 < chunkCount params f" by simp_all
  note s = job_span(1) [OF v k, of r] job_span(2-5) [OF v k]
  have "take (Suc k) (jobsOf r params f) = take k (jobsOf r params f) @ [jobsOf r params f ! k]"
    using k by (simp add: take_Suc_conv_app_nth jobsOf_length)
  then have "sum_list (map (\<lambda>j. unat (udc_staticFetchLength j)) (take (Suc k) (jobsOf r params f)))
     = (chunkStart params f k - unat (params_offset params))
       + (chunkEnd params f k - chunkStart params f k)"
    using Suc.IH [OF k] s(1) by simp
  also have "\<dots> = chunkEnd params f k - unat (params_offset params)"
    using s(2,3) by linarith
  also have "\<dots> = chunkStart params f (Suc k) - unat (params_offset params)"
    using s(5) [OF k1] by simp
  finally show ?case .
qed

lemma job_total:
  assumes v: "validated params f"
  shows "sum_list (map (\<lambda>j. unat (udc_staticFetchLength j)) (jobsOf r params f))
         = unat (params_length params)"
proof -
  define n where "n = chunkCount params f"
  have n0: "0 < n" by (simp add: n_def chunkCount_def)
  then obtain k where n: "n = Suc k" by (cases n) simp_all
  have k: "k < chunkCount params f" using n by (simp add: n_def)
  note s = job_span(1) [OF v k, of r] job_span(2-5) [OF v k]
  have "jobsOf r params f = take (Suc k) (jobsOf r params f)"
    using n by (simp add: n_def jobsOf_length)
  also have "\<dots> = take k (jobsOf r params f) @ [jobsOf r params f ! k]"
    using k by (simp add: take_Suc_conv_app_nth jobsOf_length)
  finally have "sum_list (map (\<lambda>j. unat (udc_staticFetchLength j)) (jobsOf r params f))
     = sum_list (map (\<lambda>j. unat (udc_staticFetchLength j)) (take k (jobsOf r params f)))
       + unat (udc_staticFetchLength (jobsOf r params f ! k))"
    by (metis (no_types, lifting) list.simps(8,9) map_append sum_list.Cons sum_list.Nil sum_list.append add.right_neutral)
  also have "\<dots> = (chunkStart params f k - unat (params_offset params))
       + (chunkEnd params f k - chunkStart params f k)"
    using job_cumulative [OF v k, of r] s(1) by simp
  also have "\<dots> = chunkEnd params f k - unat (params_offset params)"
    using s(2,3) by linarith
  also have "chunkEnd params f k = unat (params_offset params) + unat (params_length params)"
    using n by (simp add: chunkEnd_def n_def)
  finally show ?thesis by simp
qed

lemma job_writeOffset:
  assumes v: "validated params f" and k: "k < chunkCount params f"
  shows "udc_staticWriteOffset (jobsOf r params f ! k)
         = sum_list (map udc_staticFetchLength (take k (jobsOf r params f)))"
    and "unat (udc_staticWriteOffset (jobsOf r params f ! k))
         = sum_list (map (\<lambda>j. unat (udc_staticFetchLength j)) (take k (jobsOf r params f)))"
    and "unat (udc_staticWriteOffset (jobsOf r params f ! k))
         + unat (udc_staticFetchLength (jobsOf r params f ! k)) \<le> unat (params_length params)"
    and "0 < unat (udc_staticFetchLength (jobsOf r params f ! k))"
proof -
  let ?jobs = "jobsOf r params f"
  note s = job_span(1) [OF v k, of r] job_span(2-5) [OF v k]
  show w: "udc_staticWriteOffset (?jobs ! k) = sum_list (map udc_staticFetchLength (take k ?jobs))"
    by (subst jobsOf_nth [OF v k]) (simp only: newChunk_fields)
  have c: "sum_list (map (\<lambda>j. unat (udc_staticFetchLength j)) (take k ?jobs))
           = chunkStart params f k - unat (params_offset params)"
    by (rule job_cumulative [OF v k])
  have "unat (params_length params) < 2 ^ 64" using unsigned_less [of "params_length params"] by simp
  with c s(3,4) have "sum_list (map unat (map udc_staticFetchLength (take k ?jobs))) < 2 ^ 64"
    by (simp add: comp_def)
  from unat_sum_list [OF this]
  show u: "unat (udc_staticWriteOffset (?jobs ! k))
         = sum_list (map (\<lambda>j. unat (udc_staticFetchLength j)) (take k ?jobs))"
    by (simp add: w comp_def)
  show "unat (udc_staticWriteOffset (?jobs ! k)) + unat (udc_staticFetchLength (?jobs ! k))
        \<le> unat (params_length params)"
    unfolding u c s(1) using s(2,3,4) by linarith
  show "0 < unat (udc_staticFetchLength (?jobs ! k))"
    unfolding s(1) using s(3) by simp
qed

subsection \<open>The validation in Download\<close>

lemma validate_cases:
  "Download_validate r p =
     (case files r (p_SiaPath p) of
        None \<Rightarrow> Inl (New (''no file with that path: '' @ p_SiaPath p))
      | Some f \<Rightarrow>
          if p_Async p \<and> p_Httpwriter p \<noteq> None then
            Inl (New ''cannot async download to http response'')
          else if p_Httpwriter p \<noteq> None \<and> p_Destination p \<noteq> [] then
            Inl (New ''destination cannot be specified when downloading to http response'')
          else if p_Httpwriter p = None \<and> p_Destination p = [] then
            Inl (New ''destination not supplied'')
          else if p_Destination p \<noteq> [] \<and> \<not> IsAbs (p_Destination p) then
            Inl (New ''destination must be an absolute path'')
          else if p_Offset p = file_size f then
            Inl (New ''offset equals filesize'')
          else if p_Offset p + (if p_Length p = 0 then file_size f - p_Offset p else p_Length p)
                  > file_size f then
            Inl (New (''offset and length combination invalid, max byte is at index ''
                      @ decimal (unat (file_size f - 1))))
          else Inr (f, p\<lparr>p_Length := (if p_Length p = 0 then file_size f - p_Offset p else p_Length p)\<rparr>))"
  by (simp add: Download_validate_def Let_def split: option.splits)


text \<open>A request with an offset beyond the end of the example file.\<close>

lemma bad_validate:
  "Download_validate exRenter (exRequest False None 0 13 ''a'' ''/tmp/out'')
     = Inr (exFile, exRequest False None 18446744073709551615 13 ''a'' ''/tmp/out'')"
  by (simp add: validate_cases exRequest_def exRenter_def IsAbs_def exFile_def)

lemma bad_validate2:
  "Download_validate exRenter (exRequest False None 18446744073709551610 13 ''a'' ''/tmp/out'')
     = Inr (exFile, exRequest False None 18446744073709551610 13 ''a'' ''/tmp/out'')"
  by (simp add: validate_cases exRequest_def exRenter_def IsAbs_def exFile_def)

lemma bad_newDownload:
  "newDownload exRenter (exParams 13 18446744073709551615) 7
     = Some (Return (Inr 0,
         exRenter\<lparr>downloads :=
           [\<lparr>atomicDataReceived = 0, atomicTotalDataTransfered = 0, chunksRemaining = 0,
             completeChan = ChanOpen, err = None, endTime = 0, staticStartTime = 7,
             destination = \<lparr>dest_closed = False, dest_closeErr = None\<rparr>,
             destinationString = ''/tmp/out'', destinationType = [],
             staticLength = 18446744073709551615, staticOffset = 13, staticSiaPath = ''a'',
             staticLatencyTarget = 25000, staticOverdrive = 2, staticPriority = 5\<rparr>]\<rparr>))"
  apply (simp add: newDownload_def exParams_def exFile_def Let_def)
  apply (subst queueChunks.simps)
  apply (simp add: exRenter_def)
  done

subsection \<open>What newDownload leaves unchanged\<close>

lemma sameStore_refl [simp]: "sameStore r r"
  by (simp add: sameStore_def)

lemma sameStore_trans: "sameStore r r' \<Longrightarrow> sameStore r' r'' \<Longrightarrow> sameStore r r''"
  by (simp add: sameStore_def)

lemma piecesLoop_sameStore:
  "piecesLoop minChunk maxChunk rid ps (cms, r) = Return (cms', r') \<Longrightarrow> sameStore r r'"
proof (induction ps arbitrary: cms r)
  case Nil
  then show ?case by simp
next
  case (Cons p ps)
  show ?case
  proof (cases "minChunk \<le> Chunk p \<and> Chunk p \<le> maxChunk")
    case True
    show ?thesis
    proof (cases "unat (Chunk p - minChunk) < length cms")
      case k: True
      let ?k = "unat (Chunk p - minChunk)"
      let ?r1 = "if (cms ! ?k) rid \<noteq> None
               then r\<lparr>renterLog := renterLog r @
                      [LogPrintln ''ERROR: Worker has multiple pieces uploaded for the same chunk.'' None]\<rparr>
               else r"
      let ?cms1 = "cms[?k := (cms ! ?k)(rid \<mapsto> \<lparr>index = Piece p, root = MerkleRoot p\<rparr>)]"
      from Cons.prems True k have "piecesLoop minChunk maxChunk rid ps (?cms1, ?r1) = Return (cms', r')"
        by (simp add: Let_def)
      from Cons.IH [OF this] have "sameStore ?r1 r'" .
      moreover have "sameStore r ?r1" by (simp add: sameStore_def)
      ultimately show ?thesis by (rule sameStore_trans [rotated])
    next
      case False
      with Cons.prems True show ?thesis by (simp add: Let_def)
    qed
  next
    case False
    with Cons.prems have "piecesLoop minChunk maxChunk rid ps (cms, r) = Return (cms', r')"
      by auto
    from Cons.IH [OF this] show ?thesis .
  qed
qed

lemma contractsLoop_sameStore:
  "contractsLoop minChunk maxChunk cs (cms, r) = Return (cms', r') \<Longrightarrow> sameStore r r'"
proof (induction cs arbitrary: cms r)
  case Nil
  then show ?case by simp
next
  case (Cons x cs)
  obtain cid contract where x: "x = (cid, contract)" by (cases x)
  from Cons.prems obtain cms1 r1 where
    p: "piecesLoop minChunk maxChunk (ResolveID r cid) (Pieces contract) (cms, r) = Return (cms1, r1)"
    and c: "contractsLoop minChunk maxChunk cs (cms1, r1) = Return (cms', r')"
    by (auto simp: x Let_def split: outcome.splits)
  from piecesLoop_sameStore [OF p] Cons.IH [OF c] show ?case
    by (rule sameStore_trans)
qed

lemma sameDownload_refl: "sameDownload d d"
  by (simp add: sameDownload_def)

lemma sameDownload_step: "sameDownload (d\<lparr>chunksRemaining := c\<rparr>) d' \<Longrightarrow> sameDownload d d'"
  by (simp add: sameDownload_def)

lemma sameStore_enqueue:
  "sameStore r ((managedAddChunkToDownloadHeap r udc)\<lparr>newDownloads := b\<rparr>)"
  by (simp add: sameStore_def managedAddChunkToDownloadHeap_def)

lemma loopInv_Return: "loopInv s (Return s)"
  by (simp add: loopInv_def sameDownload_refl)

lemma loopInv_Panic: "loopInv s (Panic m)"
  by (simp add: loopInv_def)

lemma loopInv_step:
  assumes "loopInv ((managedAddChunkToDownloadHeap r udc)\<lparr>newDownloads := b\<rparr>,
                    d\<lparr>chunksRemaining := c\<rparr>, wo') y"
  shows "loopInv (r, d, wo) y"
proof (cases y)
  case (Return s')
  with assms have a: "sameStore ((managedAddChunkToDownloadHeap r udc)\<lparr>newDownloads := b\<rparr>) (fst s')"
    and d: "sameDownload (d\<lparr>chunksRemaining := c\<rparr>) (fst (snd s'))"
    by (simp_all add: loopInv_def)
  from sameStore_trans [OF sameStore_enqueue a] sameDownload_step [OF d] Return
  show ?thesis by (simp add: loopInv_def)
next
  case (Panic m)
  then show ?thesis by (simp add: loopInv_def)
qed

lemma queueChunks_loopInv:
  assumes "queueChunks params f cms minChunk maxChunk dp i s = Some y"
  shows "loopInv s y"
proof (rule queueChunks.raw_induct
    [where P = "\<lambda>(params :: downloadParams) (f :: fileT) (cms :: chunkMap list)
                  (minChunk :: uint64) (maxChunk :: uint64) (dp :: download_ptr) (i :: uint64)
                  (s :: Renter \<times> download \<times> int64) y. loopInv s y",
     OF _ assms])
  fix q :: "downloadParams \<Rightarrow> fileT \<Rightarrow> chunkMap list \<Rightarrow> uint64 \<Rightarrow> uint64 \<Rightarrow> download_ptr \<Rightarrow> uint64
            \<Rightarrow> Renter \<times> download \<times> int64 \<Rightarrow> (Renter \<times> download \<times> int64) outcome option"
  fix params f cms minChunk maxChunk dp i s y
  assume IH: "\<And>params f cms minChunk maxChunk dp i s y.
      q params f cms minChunk maxChunk dp i s = Some y \<Longrightarrow> loopInv s y"
  assume eq: "(if i \<le> maxChunk
      then if unat (i - minChunk) < length cms
           then q params f cms minChunk maxChunk dp (i + 1)
                 (let udc = newChunk params f (cms ! unat (i - minChunk)) minChunk maxChunk dp i
                              (snd (snd s))
                  in ((managedAddChunkToDownloadHeap (fst s) udc)\<lparr>newDownloads := True\<rparr>,
                      (fst (snd s))\<lparr>chunksRemaining := chunksRemaining (fst (snd s)) + 1\<rparr>,
                      snd (snd s) + udc_staticFetchLength udc))
           else Some (Panic ''index out of range'')
      else Some (Return s)) = Some y"
  show "loopInv s y"
  proof (cases "i \<le> maxChunk")
    case True
    show ?thesis
    proof (cases "unat (i - minChunk) < length cms")
      case k: True
      let ?udc = "newChunk params f (cms ! unat (i - minChunk)) minChunk maxChunk dp i (snd (snd s))"
      let ?s1 = "((managedAddChunkToDownloadHeap (fst s) ?udc)\<lparr>newDownloads := True\<rparr>,
                  (fst (snd s))\<lparr>chunksRemaining := chunksRemaining (fst (snd s)) + 1\<rparr>,
                  snd (snd s) + udc_staticFetchLength ?udc)"
      from eq have "q params f cms minChunk maxChunk dp (i + 1) ?s1 = Some y"
        by (simp only: if_P [OF True] if_P [OF k] Let_def)
      from IH [OF this] have "loopInv ?s1 y" .
      then have "loopInv (fst s, fst (snd s), snd (snd s)) y" by (rule loopInv_step)
      then show ?thesis by simp
    next
      case False
      from eq have "y = Panic ''index out of range''"
        by (simp only: if_P [OF True] if_not_P [OF False]) simp
      then show ?thesis by (simp only: loopInv_Panic)
    qed
  next
    case False
    from eq have "y = Return s" by (simp only: if_not_P [OF False]) simp
    then show ?thesis by (simp only: loopInv_Return)
  qed
qed

lemma newDownload_Inr:
  assumes "newDownload r params now = Some (Return (Inr d, r1))"
  shows "\<exists>f c. params_file params = Some f
           \<and> d = length (downloads r)
           \<and> downloads r1 = downloads r @ [(downloadOf params f now)\<lparr>chunksRemaining := c\<rparr>]
           \<and> downloadHistory r1 = downloadHistory r
           \<and> files r1 = files r"
proof -
  from assms obtain f where pf: "params_file params = Some f"
    by (cases "params_file params") (simp_all add: newDownload_def)
  have c1: "\<not> params_length params \<le> 0"
    using assms pf by (cases "params_length params \<le> 0") (simp_all add: newDownload_def)
  have c2: "\<not> params_offset params + params_length params > file_size f"
    using assms pf c1
    by (cases "params_offset params + params_length params > file_size f")
       (simp_all add: newDownload_def)
  have c3: "file_staticChunkSize f \<noteq> 0"
    using assms pf c1 c2
    by (cases "file_staticChunkSize f = 0") (simp_all add: newDownload_def Let_def)
  let ?min = "params_offset params div file_staticChunkSize f"
  let ?max = "(params_offset params + params_length params - 1) div file_staticChunkSize f"
  let ?cms0 = "replicate (unat (?max - ?min + 1)) (Map.empty :: chunkMap)"
  let ?d0 = "(downloadOf params f now)\<lparr>chunksRemaining := 0\<rparr>"
  have d0: "?d0 = \<lparr>atomicDataReceived = 0, atomicTotalDataTransfered = 0,
      chunksRemaining = 0,
      completeChan = ChanOpen, err = None, endTime = 0, staticStartTime = now,
      destination = params_destination params,
      destinationString = params_destinationString params,
      destinationType = [],
      staticLength = params_length params, staticOffset = params_offset params,
      staticSiaPath = file_name f,
      staticLatencyTarget = params_latencyTarget params,
      staticOverdrive = params_overdrive params,
      staticPriority = params_priority params\<rparr>"
    by (simp add: downloadOf_def)
  have unfolded: "newDownload r params now =
     (case contractsLoop ?min ?max (file_contracts f) (?cms0, r) of
        Panic m \<Rightarrow> Some (Panic m)
      | Return (chunkMaps', r1) \<Rightarrow>
          (case queueChunks params f chunkMaps' ?min ?max (length (downloads r)) ?min (r1, ?d0, 0) of
             None \<Rightarrow> None
           | Some (Panic m) \<Rightarrow> Some (Panic m)
           | Some (Return (r2, d', writeOffset)) \<Rightarrow>
               Some (Return (Inr (length (downloads r)), r2\<lparr>downloads := downloads r2 @ [d']\<rparr>))))"
    using pf c1 c2 c3 unfolding d0 by (simp add: newDownload_def Let_def)
  from assms obtain cms' ra where
    cl: "contractsLoop ?min ?max (file_contracts f) (?cms0, r) = Return (cms', ra)"
    unfolding unfolded
    by (cases "contractsLoop ?min ?max (file_contracts f) (?cms0, r)") auto
  from assms obtain r2 d' wo where
    q: "queueChunks params f cms' ?min ?max (length (downloads r)) ?min (ra, ?d0, 0)
          = Some (Return (r2, d', wo))"
    and res: "d = length (downloads r)" "r1 = r2\<lparr>downloads := downloads r2 @ [d']\<rparr>"
    unfolding unfolded cl
    by (auto split: option.splits outcome.splits)
  from contractsLoop_sameStore [OF cl] have s1: "sameStore r ra" .
  from queueChunks_loopInv [OF q] have s2: "sameStore ra r2" and sd: "sameDownload ?d0 d'"
    by (simp_all add: loopInv_def)
  from sameStore_trans [OF s1 s2] have s: "sameStore r r2" .
  from sd have d': "d' = (downloadOf params f now)\<lparr>chunksRemaining := chunksRemaining d'\<rparr>"
    by (simp add: sameDownload_def)
  have "downloads r1 = downloads r @ [(downloadOf params f now)\<lparr>chunksRemaining := chunksRemaining d'\<rparr>]"
    using s res(2) d' by (simp add: sameStore_def)
  moreover have "downloadHistory r1 = downloadHistory r" "files r1 = files r"
    using s res(2) by (simp_all add: sameStore_def)
  ultimately show ?thesis using pf res(1) by blast
qed

lemma Download_enqueue_Inr:
  assumes "Download_enqueue r f p env = Some (Return (Inr d, r2))"
  shows "\<exists>x. d = length (downloads r)
           \<and> downloads r2 = downloads r @ [x]
           \<and> downloadHistory r2 = downloadHistory r @ [d]
           \<and> files r2 = files r
           \<and> completeChan x = ChanOpen \<and> err x = None
           \<and> staticSiaPath x = file_name f \<and> staticOffset x = p_Offset p
           \<and> staticLength x = p_Length p \<and> destinationString x = p_Destination p"
proof -
  let ?dst = "if p_Httpwriter p \<noteq> None
               then Inr (newDownloadDestinationHTTPWriter (p_Httpwriter p), ''http stream'')
               else (case env_openFile env of
                       Inl e \<Rightarrow> Inl e
                     | Inr osFile \<Rightarrow> Inr (osFile, ''file''))"
  from assms obtain dw dtype where dst: "?dst = Inr (dw, dtype)"
    by (cases ?dst) (auto simp: Download_enqueue_def Let_def)
  let ?params = "\<lparr>params_destination = dw,
                           params_destinationType = dtype,
                           params_destinationString = p_Destination p,
                           params_file = Some f,
                           params_latencyTarget = 25000,
                           params_length = p_Length p,
                           params_needsMemory = True,
                           params_offset = p_Offset p,
                           params_overdrive = 2,
                           params_priority = 5\<rparr>"
  have unfolded: "Download_enqueue r f p env =
     (case newDownload r ?params (env_now env) of
                None \<Rightarrow> None
              | Some (Panic m) \<Rightarrow> Some (Panic m)
              | Some (Return (Inl e, r1)) \<Rightarrow> Some (Return (Inl e, r1))
              | Some (Return (Inr d, r1)) \<Rightarrow>
                  Some (Return (Inr d, r1\<lparr>downloadHistory := downloadHistory r1 @ [d]\<rparr>)))"
    using dst by (simp add: Download_enqueue_def Let_def)
  from assms obtain r1 where
    n: "newDownload r ?params (env_now env) = Some (Return (Inr d, r1))"
    and r2: "r2 = r1\<lparr>downloadHistory := downloadHistory r1 @ [d]\<rparr>"
    unfolding unfolded by (auto split: option.splits outcome.splits sum.splits)
  from newDownload_Inr [OF n] obtain c where
    x: "d = length (downloads r)"
       "downloads r1 = downloads r @ [(downloadOf ?params f (env_now env))\<lparr>chunksRemaining := c\<rparr>]"
       "downloadHistory r1 = downloadHistory r" "files r1 = files r"
    by auto
  show ?thesis
    using x r2
    by (intro exI [of _ "(downloadOf ?params f (env_now env))\<lparr>chunksRemaining := c\<rparr>"])
       (simp add: downloadOf_def)
qed


lemma ex_enqueue:
  "\<exists>r2. Download_enqueue exRenter exFile (exRequest False None 12 0 ''a'' ''/tmp/out'') exEnv
           = Some (Return (Inr 0, r2))
        \<and> downloads r2 = [downloadOf (exParams 0 12) exFile 7]
        \<and> downloadHistory r2 = [0]"
proof -
  have v: "validated (exParams 0 12) exFile"
    by (simp add: validated_def exParams_def exFile_def)
  from newDownload_enqueues [OF v, of exRenter 7] obtain r1 where
    r1: "newDownload exRenter (exParams 0 12) 7 = Some (Return (Inr (length (downloads exRenter)), r1))"
        "downloads r1 = downloads exRenter @ [downloadOf (exParams 0 12) exFile 7]"
        "downloadHistory r1 = downloadHistory exRenter"
    by blast
  have p: "\<lparr>params_destination = \<lparr>dest_closed = False, dest_closeErr = None\<rparr>,
            params_destinationType = ''file'',
            params_destinationString = ''/tmp/out'',
            params_file = Some exFile,
            params_latencyTarget = 25000,
            params_length = 12,
            params_needsMemory = True,
            params_offset = 0,
            params_overdrive = 2,
            params_priority = 5\<rparr> = exParams 0 12"
    by (simp add: exParams_def)
  have l: "length (downloads exRenter) = 0" "downloads exRenter = []" "downloadHistory exRenter = []"
    by (simp_all add: exRenter_def)
  have "Download_enqueue exRenter exFile (exRequest False None 12 0 ''a'' ''/tmp/out'') exEnv
           = Some (Return (Inr 0, r1\<lparr>downloadHistory := downloadHistory r1 @ [0]\<rparr>))"
    using r1(1) by (simp add: Download_enqueue_def exRequest_def exEnv_def p l)
  then show ?thesis using r1(2,3) l
    by (intro exI [of _ "r1\<lparr>downloadHistory := downloadHistory r1 @ [0]\<rparr>"]) simp
qed

lemma ex_validate:
  "Download_validate exRenter (exRequest False None 0 0 ''a'' ''/tmp/out'')
     = Inr (exFile, exRequest False None 12 0 ''a'' ''/tmp/out'')"
  by (simp add: validate_cases exRequest_def exFile_def exRenter_def IsAbs_def)


subsection \<open>The history\<close>

lemma historyEntry_valid:
  assumes "i < length (downloadHistory r)"
    and "downloadHistory r ! (length (downloadHistory r) - i - 1) < length (downloads r)"
  shows "historyEntry r i
         = Return (downloadInfo (downloads r ! (downloadHistory r ! (length (downloadHistory r) - i - 1))))"
proof -
  have "length (downloadHistory r) - i - 1 < length (downloadHistory r)" using assms(1) by simp
  then show ?thesis using assms
    by (cases "Err (downloads r ! (downloadHistory r ! (length (downloadHistory r) - i - 1)))")
       (simp_all add: historyEntry_def Let_def downloadInfo_def)
qed

lemma historyLoop_map:
  "(\<forall>i\<in>set js. historyEntry r i = Return (h i)) \<Longrightarrow> historyLoop r js = Return (map h js)"
  by (induction js) simp_all

lemma rev_as_map:
  "map (\<lambda>i. g (xs ! (length xs - i - 1))) [0..<length xs] = map g (rev xs)"
proof (rule nth_equalityI)
  show "length (map (\<lambda>i. g (xs ! (length xs - i - 1))) [0..<length xs]) = length (map g (rev xs))"
    by simp
next
  fix i assume "i < length (map (\<lambda>i. g (xs ! (length xs - i - 1))) [0..<length xs])"
  then have i: "i < length xs" by simp
  have "map (\<lambda>i. g (xs ! (length xs - i - 1))) [0..<length xs] ! i = g (xs ! (length xs - i - 1))"
    using i by simp
  moreover have "map g (rev xs) ! i = g (xs ! (length xs - Suc i))"
    using i by (simp add: rev_nth)
  ultimately show "map (\<lambda>i. g (xs ! (length xs - i - 1))) [0..<length xs] ! i = map g (rev xs) ! i"
    by simp
qed

lemma DownloadHistory_valid:
  assumes "\<forall>dp\<in>set (downloadHistory r). dp < length (downloads r)"
  shows "DownloadHistory r
         = Return (map (\<lambda>dp. downloadInfo (downloads r ! dp)) (rev (downloadHistory r)))"
proof -
  let ?n = "length (downloadHistory r)"
  let ?h = "\<lambda>i. downloadInfo (downloads r ! (downloadHistory r ! (?n - i - 1)))"
  have "\<forall>i\<in>set [0..<?n]. historyEntry r i = Return (?h i)"
  proof
    fix i assume "i \<in> set [0..<?n]"
    then have i: "i < ?n" by simp
    then have "downloadHistory r ! (?n - i - 1) \<in> set (downloadHistory r)" by simp
    with assms have "downloadHistory r ! (?n - i - 1) < length (downloads r)" by blast
    from historyEntry_valid [OF i this] show "historyEntry r i = Return (?h i)" .
  qed
  from historyLoop_map [OF this]
  have "DownloadHistory r = Return (map ?h [0..<?n])" by (simp add: DownloadHistory_def)
  also have "map ?h [0..<?n] = map (\<lambda>dp. downloadInfo (downloads r ! dp)) (rev (downloadHistory r))"
    by (rule rev_as_map [of "\<lambda>dp. downloadInfo (downloads r ! dp)" "downloadHistory r"])
  finally show ?thesis .
qed



text \<open>A chunk size of zero makes the chunk arithmetic of newDownload divide by zero; the
  range checks of Download pass or fail as follows.\<close>

lemma newDownload_zero_chunk_size:
  assumes "params_file params = Some f" "params_length params \<noteq> 0"
    and "\<not> params_offset params + params_length params > file_size f"
    and "file_staticChunkSize f = 0"
  shows "newDownload r params now = Some (Panic ''integer divide by zero'')"
  using assms by (simp add: newDownload_def Let_def)

lemma Download_validate_sentinel_wraps:
  assumes "files r (p_SiaPath p) = Some f"
    and "p_Httpwriter p = None" "p_Destination p \<noteq> []" "IsAbs (p_Destination p)"
    and "p_Offset p \<noteq> file_size f" "p_Length p = 0"
  shows "Download_validate r p = Inr (f, p\<lparr>p_Length := file_size f - p_Offset p\<rparr>)"
  using assms by (simp add: validate_cases)

lemma Download_validate_offset_equals_filesize:
  assumes "files r (p_SiaPath p) = Some f"
    and "p_Httpwriter p = None" "p_Destination p \<noteq> []" "IsAbs (p_Destination p)"
    and "p_Offset p = file_size f"
  shows "Download_validate r p = Inl (New ''offset equals filesize'')"
  using assms by (simp add: validate_cases)

lemma Download_validate_rejects_without_wrap:
  assumes "files r (p_SiaPath p) = Some f"
    and "unat (file_size f) \<le> unat (p_Offset p)" "p_Length p \<noteq> 0"
    and "unat (p_Offset p) + unat (p_Length p) < 2 ^ 64"
  shows "\<exists>e. Download_validate r p = Inl e"
proof -
  have "unat (p_Offset p) + unat (p_Length p) < 2 ^ LENGTH(64)" using assms(4) by simp
  then have u: "unat (p_Offset p + p_Length p) = unat (p_Offset p) + unat (p_Length p)"
    by (simp only: unat_add_lem)
  have "0 < unat (p_Length p)" using assms(3) by (simp add: unat_gt_0)
  with u assms(2) have "file_size f < p_Offset p + p_Length p"
    by (simp add: word_less_nat_alt)
  then show ?thesis using assms(1,3) by (simp add: validate_cases)
qed

section \<open>Completion of a download\<close>

lemma Compose_Some: "Compose [Some x, e] \<noteq> None"
  by (cases e) (simp_all add: Compose_def List.map_filter_def)

lemma managedFail_complete_err:
  "staticComplete d \<Longrightarrow> err d \<noteq> None \<Longrightarrow>
   managedFail d e = Return (d\<lparr>err := Compose [err d, e]\<rparr>, [])"
  by (simp add: managedFail_def)

lemma managedFail_complete_nil:
  "staticComplete d \<Longrightarrow> err d = None \<Longrightarrow>
   managedFail d e = Return (d, [LogCritical
     ''download is marked as completed without error, but then managedFail was called with err:'' e])"
  by (simp add: managedFail_def)

lemma managedFail_first:
  "\<not> staticComplete d \<Longrightarrow>
   managedFail d e =
     Return (d\<lparr>err := e, completeChan := ChanClosed,
              destination := (destination d)\<lparr>dest_closed := True\<rparr>\<rparr>,
             [CloseCompleteChan, CloseDestination] @
             (if dest_closeErr (destination d) \<noteq> None
              then [LogPrintln ''unable to close download destination:'' (dest_closeErr (destination d))]
              else []))"
  by (cases "completeChan d") (simp_all add: managedFail_def staticComplete_def close_def Close_def Let_def)

lemma run_complete:
  "staticComplete d \<Longrightarrow>
   \<exists>d' evs. managedFail_run d es = Return (d', evs) \<and> count_list evs CloseCompleteChan = 0
      \<and> staticComplete d' \<and> (err d \<noteq> None \<longrightarrow> err d' \<noteq> None)"
proof (induction es arbitrary: d)
  case Nil
  then show ?case by simp
next
  case (Cons e es)
  show ?case
  proof (cases "err d")
    case None
    with Cons.prems have mf: "managedFail d e = Return (d, [LogCritical
     ''download is marked as completed without error, but then managedFail was called with err:'' e])"
      by (simp add: managedFail_complete_nil)
    from Cons.IH [OF Cons.prems] obtain d' evs where
      "managedFail_run d es = Return (d', evs)" "count_list evs CloseCompleteChan = 0" "staticComplete d'"
      by blast
    with mf None show ?thesis by simp
  next
    case (Some x)
    let ?d1 = "d\<lparr>err := Compose [err d, e]\<rparr>"
    from Some Cons.prems have mf: "managedFail d e = Return (?d1, [])"
      by (simp add: managedFail_complete_err)
    have c1: "staticComplete ?d1" using Cons.prems by (simp add: staticComplete_def)
    have e1: "err ?d1 \<noteq> None" using Some Compose_Some by simp
    from Cons.IH [OF c1] e1 obtain d' evs where
      "managedFail_run ?d1 es = Return (d', evs)" "count_list evs CloseCompleteChan = 0" "staticComplete d'"
      "err d' \<noteq> None"
      by blast
    with mf show ?thesis by simp
  qed
qed

lemma run_any:
  "\<exists>d' evs. managedFail_run d es = Return (d', evs) \<and> count_list evs CloseCompleteChan \<le> 1
      \<and> (staticComplete d \<longrightarrow> count_list evs CloseCompleteChan = 0)
      \<and> (es \<noteq> [] \<longrightarrow> staticComplete d')
      \<and> (staticComplete d \<and> Err d \<noteq> None \<longrightarrow> Err d' \<noteq> None)
      \<and> (es \<noteq> [] \<and> \<not> staticComplete d \<and> hd es \<noteq> None \<longrightarrow> Err d' \<noteq> None)"
proof (cases "staticComplete d")
  case True
  from run_complete [OF True, of es] show ?thesis using True by (auto simp: Err_def)
next
  case False
  show ?thesis
  proof (cases es)
    case Nil
    then show ?thesis by simp
  next
    case (Cons e es')
    let ?d1 = "d\<lparr>err := e, completeChan := ChanClosed,
              destination := (destination d)\<lparr>dest_closed := True\<rparr>\<rparr>"
    have c1: "staticComplete ?d1" by (simp add: staticComplete_def)
    from run_complete [OF c1, of es'] obtain d' evs where
      r: "managedFail_run ?d1 es' = Return (d', evs)" "count_list evs CloseCompleteChan = 0" "staticComplete d'"
      "err ?d1 \<noteq> None \<longrightarrow> err d' \<noteq> None"
      by blast
    show ?thesis using False Cons r by (simp add: managedFail_first Err_def)
  qed
qed

text \<open>
  Claim C2. The completion channel is closed at most once, and \<^verbatim>\<open>managedFail\<close> is idempotent
  and cumulative. On a download that is complete with an error, the new error is composed
  onto the stored one, the result is not nil, and nothing else changes. On a download that
  is complete without an error the state is unchanged and one critical line is logged.
  Otherwise the error is stored, the completion channel is closed and the destination is
  closed. Any run of \<^verbatim>\<open>managedFail\<close> calls returns without a panic and closes the channel at
  most once (never, when the download was complete before); after it the download is
  complete, and an error that was set at completion is never nil again.
\<close>

theorem managedFail_idempotent_cumulative:
  "(staticComplete d \<and> err d \<noteq> None \<longrightarrow>
      managedFail d e = Return (d\<lparr>err := Compose [err d, e]\<rparr>, [])
      \<and> Compose [err d, e] \<noteq> None)
   \<and> (staticComplete d \<and> err d = None \<longrightarrow>
      managedFail d e = Return (d, [LogCritical
        ''download is marked as completed without error, but then managedFail was called with err:'' e]))
   \<and> (\<not> staticComplete d \<longrightarrow>
      managedFail d e =
        Return (d\<lparr>err := e, completeChan := ChanClosed,
                 destination := (destination d)\<lparr>dest_closed := True\<rparr>\<rparr>,
                [CloseCompleteChan, CloseDestination] @
                (if dest_closeErr (destination d) \<noteq> None
                 then [LogPrintln ''unable to close download destination:''
                         (dest_closeErr (destination d))]
                 else [])))
   \<and> (\<exists>d' evs. managedFail_run d es = Return (d', evs)
        \<and> count_list evs CloseCompleteChan \<le> 1
        \<and> (staticComplete d \<longrightarrow> count_list evs CloseCompleteChan = 0)
        \<and> (es \<noteq> [] \<longrightarrow> staticComplete d')
        \<and> (staticComplete d \<and> Err d \<noteq> None \<longrightarrow> Err d' \<noteq> None)
        \<and> (es \<noteq> [] \<and> \<not> staticComplete d \<and> hd es \<noteq> None \<longrightarrow> Err d' \<noteq> None))"
proof (intro conjI impI)
  assume "staticComplete d \<and> err d \<noteq> None"
  then show "managedFail d e = Return (d\<lparr>err := Compose [err d, e]\<rparr>, [])"
    by (simp add: managedFail_complete_err)
next
  assume "staticComplete d \<and> err d \<noteq> None"
  then show "Compose [err d, e] \<noteq> None"
    using Compose_Some by auto
next
  assume "staticComplete d \<and> err d = None"
  then show "managedFail d e = Return (d, [LogCritical
        ''download is marked as completed without error, but then managedFail was called with err:'' e])"
    by (simp add: managedFail_complete_nil)
next
  assume "\<not> staticComplete d"
  then show "managedFail d e =
        Return (d\<lparr>err := e, completeChan := ChanClosed,
                 destination := (destination d)\<lparr>dest_closed := True\<rparr>\<rparr>,
                [CloseCompleteChan, CloseDestination] @
                (if dest_closeErr (destination d) \<noteq> None
                 then [LogPrintln ''unable to close download destination:''
                         (dest_closeErr (destination d))]
                 else []))"
    by (rule managedFail_first)
next
  show "\<exists>d' evs. managedFail_run d es = Return (d', evs)
        \<and> count_list evs CloseCompleteChan \<le> 1
        \<and> (staticComplete d \<longrightarrow> count_list evs CloseCompleteChan = 0)
        \<and> (es \<noteq> [] \<longrightarrow> staticComplete d')
        \<and> (staticComplete d \<and> Err d \<noteq> None \<longrightarrow> Err d' \<noteq> None)
        \<and> (es \<noteq> [] \<and> \<not> staticComplete d \<and> hd es \<noteq> None \<longrightarrow> Err d' \<noteq> None)"
    by (rule run_any)
qed

theorem managedFail_idempotent_cumulative_witness:
  "\<not> staticComplete pendingDownload
   \<and> managedFail pendingDownload (Some (New ''a'')) =
       Return (pendingDownload\<lparr>err := Some (New ''a''), completeChan := ChanClosed,
                 destination := \<lparr>dest_closed = True, dest_closeErr = None\<rparr>\<rparr>,
               [CloseCompleteChan, CloseDestination])
   \<and> staticComplete (pendingDownload\<lparr>err := Some (New ''a''), completeChan := ChanClosed\<rparr>)
   \<and> managedFail (pendingDownload\<lparr>err := Some (New ''a''), completeChan := ChanClosed\<rparr>)
        (Some (New ''b'')) =
       Return (pendingDownload\<lparr>err := Some (ErrSet [New ''a'', New ''b'']),
                 completeChan := ChanClosed\<rparr>, [])
   \<and> staticComplete (pendingDownload\<lparr>completeChan := ChanClosed\<rparr>)
   \<and> managedFail (pendingDownload\<lparr>completeChan := ChanClosed\<rparr>) (Some (New ''b'')) =
       Return (pendingDownload\<lparr>completeChan := ChanClosed\<rparr>, [LogCritical
        ''download is marked as completed without error, but then managedFail was called with err:''
        (Some (New ''b''))])
   \<and> (\<exists>d' evs. managedFail_run pendingDownload [Some (New ''a''), Some (New ''b'')] = Return (d', evs)
        \<and> count_list evs CloseCompleteChan \<le> 1 \<and> staticComplete d' \<and> Err d' \<noteq> None)"
proof -
  have o: "\<not> staticComplete pendingDownload"
    by (simp add: pendingDownload_def staticComplete_def)
  have c1: "staticComplete (pendingDownload\<lparr>err := Some (New ''a''), completeChan := ChanClosed\<rparr>)"
    by (simp add: staticComplete_def)
  have c2: "staticComplete (pendingDownload\<lparr>completeChan := ChanClosed\<rparr>)"
    by (simp add: staticComplete_def)
  have e2: "err (pendingDownload\<lparr>completeChan := ChanClosed\<rparr>) = None"
    by (simp add: pendingDownload_def)
  have run: "\<exists>d' evs. managedFail_run pendingDownload [Some (New ''a''), Some (New ''b'')] = Return (d', evs)
        \<and> count_list evs CloseCompleteChan \<le> 1 \<and> staticComplete d' \<and> Err d' \<noteq> None"
    using o managedFail_idempotent_cumulative [of pendingDownload "Some (New ''a'')"
        "[Some (New ''a''), Some (New ''b'')]"]
    by (elim conjE exE, intro exI conjI) simp_all
  have first: "managedFail pendingDownload (Some (New ''a'')) =
       Return (pendingDownload\<lparr>err := Some (New ''a''), completeChan := ChanClosed,
                 destination := \<lparr>dest_closed = True, dest_closeErr = None\<rparr>\<rparr>,
               [CloseCompleteChan, CloseDestination])"
    using o managedFail_idempotent_cumulative [of pendingDownload "Some (New ''a'')" "[]"]
    by (simp add: pendingDownload_def)
  have second: "managedFail (pendingDownload\<lparr>err := Some (New ''a''), completeChan := ChanClosed\<rparr>)
        (Some (New ''b'')) =
       Return (pendingDownload\<lparr>err := Some (ErrSet [New ''a'', New ''b'']),
                 completeChan := ChanClosed\<rparr>, [])"
    using c1 managedFail_idempotent_cumulative [of
        "pendingDownload\<lparr>err := Some (New ''a''), completeChan := ChanClosed\<rparr>" "Some (New ''b'')" "[]"]
    by (simp add: Compose_def List.map_filter_def)
  have third: "managedFail (pendingDownload\<lparr>completeChan := ChanClosed\<rparr>) (Some (New ''b'')) =
       Return (pendingDownload\<lparr>completeChan := ChanClosed\<rparr>, [LogCritical
        ''download is marked as completed without error, but then managedFail was called with err:''
        (Some (New ''b''))])"
    using c2 e2 managedFail_idempotent_cumulative [of
        "pendingDownload\<lparr>completeChan := ChanClosed\<rparr>" "Some (New ''b'')" "[]"]
    by simp
  show ?thesis
    using o c1 c2 run first second third by blast
qed

section \<open>Fetch offset and fetch length of each chunk\<close>

text \<open>
  Claim C3. For every validated download, \<^verbatim>\<open>newDownload\<close> returns and hands one chunk per
  index \<open>i\<close> from \<open>minChunk\<close> to \<open>maxChunk\<close> to the heap. The chunk's
  \<^verbatim>\<open>staticFetchOffset\<close> is \<open>offset mod chunkSize\<close> when \<open>i = minChunk\<close> and 0 otherwise; its
  \<^verbatim>\<open>staticFetchLength\<close> is \<open>((offset + length) mod chunkSize) - staticFetchOffset\<close> when
  \<open>i = maxChunk\<close> and \<open>(offset + length) mod chunkSize \<noteq> 0\<close>, and
  \<open>chunkSize - staticFetchOffset\<close> otherwise. Neither subtraction wraps around: the same
  equations hold for the values read as natural numbers.
\<close>

theorem newDownload_fetch_offset_and_length:
  assumes "validated params f"
  shows "\<exists>r' jobs.
      newDownload r params now = Some (Return (Inr (length (downloads r)), r'))
    \<and> downloadHeap r' = downloadHeap r @ jobs
    \<and> length jobs = unat (maxChunkOf params f - minChunkOf params f) + 1
    \<and> (\<forall>k<length jobs.
         udc_staticChunkIndex (jobs ! k) = minChunkOf params f + of_nat k
       \<and> minChunkOf params f \<le> udc_staticChunkIndex (jobs ! k)
       \<and> udc_staticChunkIndex (jobs ! k) \<le> maxChunkOf params f
       \<and> udc_staticFetchOffset (jobs ! k)
           = (if udc_staticChunkIndex (jobs ! k) = minChunkOf params f
              then params_offset params mod file_staticChunkSize f else 0)
       \<and> udc_staticFetchLength (jobs ! k)
           = (if udc_staticChunkIndex (jobs ! k) = maxChunkOf params f
                 \<and> (params_offset params + params_length params) mod file_staticChunkSize f \<noteq> 0
              then (params_offset params + params_length params) mod file_staticChunkSize f
                   - udc_staticFetchOffset (jobs ! k)
              else file_staticChunkSize f - udc_staticFetchOffset (jobs ! k))
       \<and> unat (udc_staticFetchLength (jobs ! k))
           = (if udc_staticChunkIndex (jobs ! k) = maxChunkOf params f
                 \<and> (params_offset params + params_length params) mod file_staticChunkSize f \<noteq> 0
              then (unat (params_offset params) + unat (params_length params))
                     mod unat (file_staticChunkSize f)
                   - unat (udc_staticFetchOffset (jobs ! k))
              else unat (file_staticChunkSize f) - unat (udc_staticFetchOffset (jobs ! k)))
       \<and> unat (udc_staticFetchOffset (jobs ! k))
           \<le> (if udc_staticChunkIndex (jobs ! k) = maxChunkOf params f
                 \<and> (params_offset params + params_length params) mod file_staticChunkSize f \<noteq> 0
              then (unat (params_offset params) + unat (params_length params))
                     mod unat (file_staticChunkSize f)
              else unat (file_staticChunkSize f)))"
proof -
  from newDownload_enqueues [OF assms, of r now] obtain r' where
    r': "newDownload r params now = Some (Return (Inr (length (downloads r)), r'))"
        "downloadHeap r' = downloadHeap r @ jobsOf r params f"
    by blast
  have len: "length (jobsOf r params f) = unat (maxChunkOf params f - minChunkOf params f) + 1"
    by (simp add: jobsOf_length chunkCount_def)
  have each: "udc_staticChunkIndex (jobsOf r params f ! k) = minChunkOf params f + of_nat k
       \<and> minChunkOf params f \<le> udc_staticChunkIndex (jobsOf r params f ! k)
       \<and> udc_staticChunkIndex (jobsOf r params f ! k) \<le> maxChunkOf params f
       \<and> udc_staticFetchOffset (jobsOf r params f ! k)
           = (if udc_staticChunkIndex (jobsOf r params f ! k) = minChunkOf params f
              then params_offset params mod file_staticChunkSize f else 0)
       \<and> udc_staticFetchLength (jobsOf r params f ! k)
           = (if udc_staticChunkIndex (jobsOf r params f ! k) = maxChunkOf params f
                 \<and> (params_offset params + params_length params) mod file_staticChunkSize f \<noteq> 0
              then (params_offset params + params_length params) mod file_staticChunkSize f
                   - udc_staticFetchOffset (jobsOf r params f ! k)
              else file_staticChunkSize f - udc_staticFetchOffset (jobsOf r params f ! k))
       \<and> unat (udc_staticFetchLength (jobsOf r params f ! k))
           = (if udc_staticChunkIndex (jobsOf r params f ! k) = maxChunkOf params f
                 \<and> (params_offset params + params_length params) mod file_staticChunkSize f \<noteq> 0
              then (unat (params_offset params) + unat (params_length params))
                     mod unat (file_staticChunkSize f)
                   - unat (udc_staticFetchOffset (jobsOf r params f ! k))
              else unat (file_staticChunkSize f) - unat (udc_staticFetchOffset (jobsOf r params f ! k)))
       \<and> unat (udc_staticFetchOffset (jobsOf r params f ! k))
           \<le> (if udc_staticChunkIndex (jobsOf r params f ! k) = maxChunkOf params f
                 \<and> (params_offset params + params_length params) mod file_staticChunkSize f \<noteq> 0
              then (unat (params_offset params) + unat (params_length params))
                     mod unat (file_staticChunkSize f)
              else unat (file_staticChunkSize f))"
    if k: "k < length (jobsOf r params f)" for k
  proof -
    have k': "k < chunkCount params f" using k by (simp add: jobsOf_length)
    note e = job_fetch_exact [OF assms k', of r]
    show ?thesis
      unfolding e(1)
      using e(2,3,4,5) job_index(2,3) [OF assms k'] by blast
  qed
  show ?thesis
    using r' len each by blast
qed

theorem newDownload_fetch_offset_and_length_witness:
  "validated (exParams 2 8) exFile
   \<and> map udc_staticChunkIndex (enqueued (newDownload exRenter (exParams 2 8) 0)) = [0, 1, 2]
   \<and> map udc_staticFetchOffset (enqueued (newDownload exRenter (exParams 2 8) 0)) = [2, 0, 0]
   \<and> map udc_staticFetchLength (enqueued (newDownload exRenter (exParams 2 8) 0)) = [2, 4, 2]"
proof -
  have v: "validated (exParams 2 8) exFile"
    by (simp add: validated_def exParams_def exFile_def)
  have mn: "minChunkOf (exParams 2 8) exFile = 0"
    by (simp add: minChunkOf_def exParams_def exFile_def)
  have mx: "maxChunkOf (exParams 2 8) exFile = 2"
    by (simp add: maxChunkOf_def exParams_def exFile_def)
  have vals: "params_offset (exParams 2 8) = 2" "params_length (exParams 2 8) = 8"
    "file_staticChunkSize exFile = 4"
    by (simp_all add: exParams_def exFile_def)
  from newDownload_fetch_offset_and_length [OF v, of exRenter 0] obtain r' jobs where
    res: "newDownload exRenter (exParams 2 8) 0 = Some (Return (Inr (length (downloads exRenter)), r'))"
      and heap: "downloadHeap r' = downloadHeap exRenter @ jobs"
      and len: "length jobs = unat (maxChunkOf (exParams 2 8) exFile - minChunkOf (exParams 2 8) exFile) + 1"
      and each: "\<forall>k<length jobs.
         udc_staticChunkIndex (jobs ! k) = minChunkOf (exParams 2 8) exFile + of_nat k
       \<and> minChunkOf (exParams 2 8) exFile \<le> udc_staticChunkIndex (jobs ! k)
       \<and> udc_staticChunkIndex (jobs ! k) \<le> maxChunkOf (exParams 2 8) exFile
       \<and> udc_staticFetchOffset (jobs ! k)
           = (if udc_staticChunkIndex (jobs ! k) = minChunkOf (exParams 2 8) exFile
              then params_offset (exParams 2 8) mod file_staticChunkSize exFile else 0)
       \<and> udc_staticFetchLength (jobs ! k)
           = (if udc_staticChunkIndex (jobs ! k) = maxChunkOf (exParams 2 8) exFile
                 \<and> (params_offset (exParams 2 8) + params_length (exParams 2 8)) mod file_staticChunkSize exFile \<noteq> 0
              then (params_offset (exParams 2 8) + params_length (exParams 2 8)) mod file_staticChunkSize exFile
                   - udc_staticFetchOffset (jobs ! k)
              else file_staticChunkSize exFile - udc_staticFetchOffset (jobs ! k))"
    by blast
  have len3: "length jobs = 3" using len by (simp add: mn mx)
  have enq: "enqueued (newDownload exRenter (exParams 2 8) 0) = jobs"
    using res heap by (simp add: enqueued_def exRenter_def)
  have jobs: "jobs = [jobs ! 0, jobs ! 1, jobs ! 2]"
    by (rule list_of_length3 [OF len3])
  have j0: "udc_staticChunkIndex (jobs ! 0) = 0 \<and> udc_staticFetchOffset (jobs ! 0) = 2
            \<and> udc_staticFetchLength (jobs ! 0) = 2"
    using each [rule_format, of 0] len3 by (simp add: mn mx vals)
  have j1: "udc_staticChunkIndex (jobs ! 1) = 1 \<and> udc_staticFetchOffset (jobs ! 1) = 0
            \<and> udc_staticFetchLength (jobs ! 1) = 4"
    using each [rule_format, of 1] len3 by (simp add: mn mx vals)
  have j2: "udc_staticChunkIndex (jobs ! 2) = 2 \<and> udc_staticFetchOffset (jobs ! 2) = 0
            \<and> udc_staticFetchLength (jobs ! 2) = 2"
    using each [rule_format, of 2] len3 by (simp add: mn mx vals)
  have "map udc_staticChunkIndex jobs = [0, 1, 2]"
    by (subst jobs) (simp add: j0 j1 j2 del: One_nat_def)
  moreover have "map udc_staticFetchOffset jobs = [2, 0, 0]"
    by (subst jobs) (simp add: j0 j1 j2 del: One_nat_def)
  moreover have "map udc_staticFetchLength jobs = [2, 4, 2]"
    by (subst jobs) (simp add: j0 j1 j2 del: One_nat_def)
  ultimately show ?thesis using v enq by simp
qed

section \<open>Overdrive\<close>

text \<open>
  Claim C4, as amended. The guard of the code is \<^verbatim>\<open>i < 2\<close> on the chunk index within the
  file, not on the position within the download: for every validated download, a chunk
  receives the configured overdrive exactly when its chunk index is 0 or 1, and 0
  otherwise. When the download starts in chunk 0, these are its first two chunks.
\<close>

theorem newDownload_overdrive_by_chunk_index:
  assumes "validated params f"
  shows "\<exists>r' jobs.
      newDownload r params now = Some (Return (Inr (length (downloads r)), r'))
    \<and> downloadHeap r' = downloadHeap r @ jobs
    \<and> length jobs = unat (maxChunkOf params f - minChunkOf params f) + 1
    \<and> (\<forall>k<length jobs.
         udc_staticChunkIndex (jobs ! k) = minChunkOf params f + of_nat k
       \<and> udc_staticOverdrive (jobs ! k)
           = (if udc_staticChunkIndex (jobs ! k) < 2 then params_overdrive params else 0))
    \<and> (minChunkOf params f = 0 \<longrightarrow>
         (\<forall>k<length jobs.
            udc_staticOverdrive (jobs ! k) = (if k < 2 then params_overdrive params else 0)))"
proof -
  from newDownload_enqueues [OF assms, of r now] obtain r' where
    r': "newDownload r params now = Some (Return (Inr (length (downloads r)), r'))"
        "downloadHeap r' = downloadHeap r @ jobsOf r params f"
    by blast
  have len: "length (jobsOf r params f) = unat (maxChunkOf params f - minChunkOf params f) + 1"
    by (simp add: jobsOf_length chunkCount_def)
  have each: "udc_staticChunkIndex (jobsOf r params f ! k) = minChunkOf params f + of_nat k
       \<and> udc_staticOverdrive (jobsOf r params f ! k)
           = (if udc_staticChunkIndex (jobsOf r params f ! k) < 2 then params_overdrive params else 0)"
    if "k < length (jobsOf r params f)" for k
  proof -
    have k: "k < chunkCount params f" using that by (simp add: jobsOf_length)
    show ?thesis
      by (simp only: job_chunkIndex [OF assms k] job_overdrive [OF assms k])
  qed
  have zero: "udc_staticOverdrive (jobsOf r params f ! k) = (if k < 2 then params_overdrive params else 0)"
    if "k < length (jobsOf r params f)" and z: "minChunkOf params f = 0" for k
  proof -
    have k: "k < chunkCount params f" using that by (simp add: jobsOf_length)
    have "unat (minChunkOf params f + of_nat k) = k"
      using job_index(1) [OF assms k] z by simp
    then have "(minChunkOf params f + of_nat k < 2) = (k < 2)"
      by (simp add: word_less_nat_alt)
    then show ?thesis by (simp only: job_overdrive [OF assms k])
  qed
  show ?thesis
    using r' len each zero by blast
qed

theorem newDownload_overdrive_by_chunk_index_witness:
  "validated (exParams 2 8) exFile
   \<and> map udc_staticChunkIndex (enqueued (newDownload exRenter (exParams 2 8) 0)) = [0, 1, 2]
   \<and> map udc_staticOverdrive (enqueued (newDownload exRenter (exParams 2 8) 0)) = [2, 2, 0]"
proof -
  have v: "validated (exParams 2 8) exFile"
    by (simp add: validated_def exParams_def exFile_def)
  have mn: "minChunkOf (exParams 2 8) exFile = 0"
    by (simp add: minChunkOf_def exParams_def exFile_def)
  have mx: "maxChunkOf (exParams 2 8) exFile = 2"
    by (simp add: maxChunkOf_def exParams_def exFile_def)
  have vals: "params_overdrive (exParams 2 8) = 2"
    by (simp add: exParams_def)
  from newDownload_overdrive_by_chunk_index [OF v, of exRenter 0] obtain r' jobs where
    res: "newDownload exRenter (exParams 2 8) 0 = Some (Return (Inr (length (downloads exRenter)), r'))"
      and heap: "downloadHeap r' = downloadHeap exRenter @ jobs"
      and len: "length jobs = unat (maxChunkOf (exParams 2 8) exFile - minChunkOf (exParams 2 8) exFile) + 1"
      and each: "\<forall>k<length jobs.
         udc_staticChunkIndex (jobs ! k) = minChunkOf (exParams 2 8) exFile + of_nat k
       \<and> udc_staticOverdrive (jobs ! k)
           = (if udc_staticChunkIndex (jobs ! k) < 2 then params_overdrive (exParams 2 8) else 0)"
    by blast
  have len3: "length jobs = 3" using len by (simp add: mn mx)
  have enq: "enqueued (newDownload exRenter (exParams 2 8) 0) = jobs"
    using res heap by (simp add: enqueued_def exRenter_def)
  have jobs: "jobs = [jobs ! 0, jobs ! 1, jobs ! 2]"
    by (rule list_of_length3 [OF len3])
  have j0: "udc_staticChunkIndex (jobs ! 0) = 0 \<and> udc_staticOverdrive (jobs ! 0) = 2"
    using each [rule_format, of 0] len3 by (simp add: mn mx vals)
  have j1: "udc_staticChunkIndex (jobs ! 1) = 1 \<and> udc_staticOverdrive (jobs ! 1) = 2"
    using each [rule_format, of 1] len3 by (simp add: mn mx vals)
  have j2: "udc_staticChunkIndex (jobs ! 2) = 2 \<and> udc_staticOverdrive (jobs ! 2) = 0"
    using each [rule_format, of 2] len3 by (simp add: mn mx vals)
  have "map udc_staticChunkIndex jobs = [0, 1, 2]"
    by (subst jobs) (simp add: j0 j1 j2 del: One_nat_def)
  moreover have "map udc_staticOverdrive jobs = [2, 2, 0]"
    by (subst jobs) (simp add: j0 j1 j2 del: One_nat_def)
  ultimately show ?thesis using v enq by simp
qed

text \<open>
  The claim as stated fails for a download that starts in chunk 2: its first chunk has
  overdrive 0, with a configured overdrive of 2.
\<close>

theorem newDownload_overdrive_first_chunks_counterexample:
  "validated (exParams 8 4) exFile
   \<and> params_overdrive (exParams 8 4) = 2
   \<and> minChunkOf (exParams 8 4) exFile = 2
   \<and> map udc_staticChunkIndex (enqueued (newDownload exRenter (exParams 8 4) 0)) = [2]
   \<and> map udc_staticOverdrive (enqueued (newDownload exRenter (exParams 8 4) 0)) = [0]"
proof -
  have v: "validated (exParams 8 4) exFile"
    by (simp add: validated_def exParams_def exFile_def)
  have mn: "minChunkOf (exParams 8 4) exFile = 2"
    by (simp add: minChunkOf_def exParams_def exFile_def)
  have mx: "maxChunkOf (exParams 8 4) exFile = 2"
    by (simp add: maxChunkOf_def exParams_def exFile_def)
  have n: "chunkCount (exParams 8 4) exFile = 1"
    by (simp add: chunkCount_def mn mx)
  have enq: "enqueued (newDownload exRenter (exParams 8 4) 0) = jobsOf exRenter (exParams 8 4) exFile"
    by (rule enqueued_validated [OF v]) (simp add: exRenter_def)
  have k: "0 < chunkCount (exParams 8 4) exFile" by (simp add: n)
  have "map udc_staticChunkIndex (jobsOf exRenter (exParams 8 4) exFile) = [2]"
    by (simp add: map_jobsOf [of udc_staticChunkIndex] n job_chunkIndex [OF v k] mn)
  moreover have "map udc_staticOverdrive (jobsOf exRenter (exParams 8 4) exFile) = [0]"
    by (simp add: map_jobsOf [of udc_staticOverdrive] n job_overdrive [OF v k] mn)
  ultimately show ?thesis using v mn enq by (simp add: exParams_def)
qed

section \<open>Latency targets\<close>

text \<open>
  Claim C7, as amended. For every validated download, the chunk with index \<open>j\<close> has
  \<^verbatim>\<open>staticLatencyTarget\<close> equal to the base target plus \<open>25 * (j - minChunk)\<close>, computed in
  \<^verbatim>\<open>uint64\<close>, that is, modulo \<open>2^64\<close>. When the base target plus 25 times the number of
  later chunks stays below \<open>2^64\<close>, the value is exact and the targets do not decrease
  with the chunk index.
\<close>

theorem newDownload_latency_targets:
  assumes "validated params f"
  shows "\<exists>r' jobs.
      newDownload r params now = Some (Return (Inr (length (downloads r)), r'))
    \<and> downloadHeap r' = downloadHeap r @ jobs
    \<and> length jobs = unat (maxChunkOf params f - minChunkOf params f) + 1
    \<and> (\<forall>k<length jobs.
         udc_staticChunkIndex (jobs ! k) = minChunkOf params f + of_nat k
       \<and> udc_staticLatencyTarget (jobs ! k)
           = params_latencyTarget params + 25 * (udc_staticChunkIndex (jobs ! k) - minChunkOf params f))
    \<and> (unat (params_latencyTarget params) + 25 * (length jobs - 1) < 2 ^ 64 \<longrightarrow>
         (\<forall>k<length jobs.
            unat (udc_staticLatencyTarget (jobs ! k)) = unat (params_latencyTarget params) + 25 * k)
       \<and> (\<forall>k k'. k \<le> k' \<and> k' < length jobs \<longrightarrow>
            udc_staticLatencyTarget (jobs ! k) \<le> udc_staticLatencyTarget (jobs ! k')))"
proof -
  from newDownload_enqueues [OF assms, of r now] obtain r' where
    r': "newDownload r params now = Some (Return (Inr (length (downloads r)), r'))"
        "downloadHeap r' = downloadHeap r @ jobsOf r params f"
    by blast
  let ?jobs = "jobsOf r params f"
  have len: "length ?jobs = unat (maxChunkOf params f - minChunkOf params f) + 1"
    by (simp add: jobsOf_length chunkCount_def)
  have each: "udc_staticChunkIndex (?jobs ! k) = minChunkOf params f + of_nat k
       \<and> udc_staticLatencyTarget (?jobs ! k)
           = params_latencyTarget params + 25 * (udc_staticChunkIndex (?jobs ! k) - minChunkOf params f)"
    if "k < length ?jobs" for k
  proof -
    have k: "k < chunkCount params f" using that by (simp add: jobsOf_length)
    show ?thesis
      by (simp only: job_chunkIndex [OF assms k] job_latencyTarget(1) [OF assms k])
  qed
  have exact: "unat (udc_staticLatencyTarget (?jobs ! k)) = unat (params_latencyTarget params) + 25 * k"
    if "k < length ?jobs" and nw: "unat (params_latencyTarget params) + 25 * (length ?jobs - 1) < 2 ^ 64"
    for k
  proof -
    have k: "k < chunkCount params f" using that by (simp add: jobsOf_length)
    have "k \<le> length ?jobs - 1" using that(1) by linarith
    then have "25 * k \<le> 25 * (length ?jobs - 1)" by simp
    then have "unat (params_latencyTarget params) + 25 * k < 2 ^ 64"
      using nw by linarith
    from latency_no_wrap [OF this] show ?thesis
      by (simp only: job_latencyTarget(2) [OF assms k])
  qed
  have mono: "udc_staticLatencyTarget (?jobs ! k) \<le> udc_staticLatencyTarget (?jobs ! k')"
    if "k \<le> k'" "k' < length ?jobs"
      and nw: "unat (params_latencyTarget params) + 25 * (length ?jobs - 1) < 2 ^ 64"
    for k k'
  proof -
    have "k < length ?jobs" using that by simp
    from exact [OF this nw] exact [OF that(2) nw] that(1) show ?thesis
      by (simp add: word_le_nat_alt)
  qed
  show ?thesis
    using r' len each exact mono by blast
qed

theorem newDownload_latency_targets_witness:
  "validated (exParams 2 8) exFile
   \<and> unat (params_latencyTarget (exParams 2 8)) + 25 * (3 - 1) < (2 :: nat) ^ 64
   \<and> map udc_staticLatencyTarget (enqueued (newDownload exRenter (exParams 2 8) 0))
       = [25000, 25025, 25050]"
proof -
  have v: "validated (exParams 2 8) exFile"
    by (simp add: validated_def exParams_def exFile_def)
  have mn: "minChunkOf (exParams 2 8) exFile = 0"
    by (simp add: minChunkOf_def exParams_def exFile_def)
  have mx: "maxChunkOf (exParams 2 8) exFile = 2"
    by (simp add: maxChunkOf_def exParams_def exFile_def)
  have vals: "params_latencyTarget (exParams 2 8) = 25000"
    by (simp add: exParams_def)
  from newDownload_latency_targets [OF v, of exRenter 0] obtain r' jobs where
    res: "newDownload exRenter (exParams 2 8) 0 = Some (Return (Inr (length (downloads exRenter)), r'))"
      and heap: "downloadHeap r' = downloadHeap exRenter @ jobs"
      and len: "length jobs = unat (maxChunkOf (exParams 2 8) exFile - minChunkOf (exParams 2 8) exFile) + 1"
      and exact: "unat (params_latencyTarget (exParams 2 8)) + 25 * (length jobs - 1) < 2 ^ 64 \<longrightarrow>
         (\<forall>k<length jobs.
            unat (udc_staticLatencyTarget (jobs ! k)) = unat (params_latencyTarget (exParams 2 8)) + 25 * k)"
    by blast
  have len3: "length jobs = 3" using len by (simp add: mn mx)
  have nw: "unat (params_latencyTarget (exParams 2 8)) + 25 * (3 - 1) < (2 :: nat) ^ 64"
    by (simp add: vals)
  have enq: "enqueued (newDownload exRenter (exParams 2 8) 0) = jobs"
    using res heap by (simp add: enqueued_def exRenter_def)
  have jobs: "jobs = [jobs ! 0, jobs ! 1, jobs ! 2]"
    by (rule list_of_length3 [OF len3])
  have all: "\<forall>k<3. unat (udc_staticLatencyTarget (jobs ! k)) = 25000 + 25 * k"
    using exact nw len3 by (simp add: vals)
  have j0: "udc_staticLatencyTarget (jobs ! 0) = 25000"
    using all [rule_format, of 0] by (simp add: word_unat_eq_iff)
  have j1: "udc_staticLatencyTarget (jobs ! 1) = 25025"
    using all [rule_format, of 1] by (simp add: word_unat_eq_iff)
  have j2: "udc_staticLatencyTarget (jobs ! 2) = 25050"
    using all [rule_format, of 2] by (simp add: word_unat_eq_iff)
  have "map udc_staticLatencyTarget jobs = [25000, 25025, 25050]"
    by (subst jobs) (simp add: j0 j1 j2 del: One_nat_def)
  then show ?thesis using v nw enq by simp
qed

text \<open>
  Without that bound the sum wraps around: with the largest base target, the second chunk
  of a download has the target 24.
\<close>

theorem newDownload_latency_targets_counterexample:
  "validated ((exParams 0 8)\<lparr>params_latencyTarget := 18446744073709551615\<rparr>) exFile
   \<and> map udc_staticChunkIndex
        (enqueued (newDownload exRenter
           ((exParams 0 8)\<lparr>params_latencyTarget := 18446744073709551615\<rparr>) 0)) = [0, 1]
   \<and> map udc_staticLatencyTarget
        (enqueued (newDownload exRenter
           ((exParams 0 8)\<lparr>params_latencyTarget := 18446744073709551615\<rparr>) 0))
       = [18446744073709551615, 24]"
proof -
  let ?p = "(exParams 0 8)\<lparr>params_latencyTarget := 18446744073709551615\<rparr>"
  have v: "validated ?p exFile"
    by (simp add: validated_def exParams_def exFile_def)
  have mn: "minChunkOf ?p exFile = 0"
    by (simp add: minChunkOf_def exParams_def exFile_def)
  have mx: "maxChunkOf ?p exFile = 1"
    by (simp add: maxChunkOf_def exParams_def exFile_def)
  have n: "chunkCount ?p exFile = 2"
    by (simp add: chunkCount_def mn mx)
  have enq: "enqueued (newDownload exRenter ?p 0) = jobsOf exRenter ?p exFile"
    by (rule enqueued_validated [OF v]) (simp add: exRenter_def)
  have k0: "0 < chunkCount ?p exFile" and k1: "1 < chunkCount ?p exFile" by (simp_all add: n)
  have up: "[0..<2] = [0, 1]" by (simp add: upt_rec)
  have "map udc_staticChunkIndex (jobsOf exRenter ?p exFile) = [0, 1]"
    by (simp add: map_jobsOf [of udc_staticChunkIndex] n up job_chunkIndex [OF v k0]
          job_chunkIndex [OF v k1] mn del: One_nat_def)
  moreover have "map udc_staticLatencyTarget (jobsOf exRenter ?p exFile) = [18446744073709551615, 24]"
    by (simp add: map_jobsOf [of udc_staticLatencyTarget] n up job_latencyTarget(2) [OF v k0]
          job_latencyTarget(2) [OF v k1] del: One_nat_def) (simp add: exParams_def)
  ultimately show ?thesis using v enq by simp
qed

section \<open>Chunks and chunk maps\<close>

text \<open>
  Claim C8. For every validated download, \<^verbatim>\<open>newDownload\<close> returns, with
  \<open>minChunk = offset / chunkSize\<close> and \<open>maxChunk = (offset + length - 1) / chunkSize\<close> (as
  \<^verbatim>\<open>uint64\<close> values and as natural numbers). It hands exactly one chunk to the heap for
  each index from \<open>minChunk\<close> to \<open>maxChunk\<close>, in this order, each pointing to the new
  download, and leaves \<open>chunksRemaining = maxChunk - minChunk + 1\<close>. The map of a chunk
  has an entry for a resolved contract ID exactly when the file has a piece of that chunk
  under a contract with that resolved ID; every entry is the index and root of such a
  piece; and a piece whose (chunk, resolved ID) no other piece shares with different data
  is in the map. So the map holds the file's pieces of the chunk, one per resolved ID.
\<close>

theorem newDownload_chunks_and_maps:
  assumes "validated params f"
  shows "\<exists>r' jobs d.
      newDownload r params now = Some (Return (Inr (length (downloads r)), r'))
    \<and> downloadHeap r' = downloadHeap r @ jobs
    \<and> downloads r' = downloads r @ [d]
    \<and> minChunkOf params f = params_offset params div file_staticChunkSize f
    \<and> maxChunkOf params f
        = (params_offset params + params_length params - 1) div file_staticChunkSize f
    \<and> unat (minChunkOf params f) = unat (params_offset params) div unat (file_staticChunkSize f)
    \<and> unat (maxChunkOf params f)
        = (unat (params_offset params) + unat (params_length params) - 1)
            div unat (file_staticChunkSize f)
    \<and> minChunkOf params f \<le> maxChunkOf params f
    \<and> length jobs = unat (maxChunkOf params f) - unat (minChunkOf params f) + 1
    \<and> chunksRemaining d = maxChunkOf params f - minChunkOf params f + 1
    \<and> unat (chunksRemaining d) = length jobs
    \<and> (\<forall>k<length jobs.
          udc_staticChunkIndex (jobs ! k) = minChunkOf params f + of_nat k
        \<and> unat (udc_staticChunkIndex (jobs ! k)) = unat (minChunkOf params f) + k
        \<and> udc_download (jobs ! k) = length (downloads r)
        \<and> dom (udc_staticChunkMap (jobs ! k))
            = {ResolveID r cid | cid contract p.
                 (cid, contract) \<in> set (file_contracts f) \<and> p \<in> set (Pieces contract)
                 \<and> Chunk p = udc_staticChunkIndex (jobs ! k)}
        \<and> (\<forall>rid info. udc_staticChunkMap (jobs ! k) rid = Some info \<longrightarrow>
              (\<exists>cid contract p.
                 (cid, contract) \<in> set (file_contracts f) \<and> p \<in> set (Pieces contract)
                 \<and> Chunk p = udc_staticChunkIndex (jobs ! k) \<and> ResolveID r cid = rid
                 \<and> info = \<lparr>index = Piece p, root = MerkleRoot p\<rparr>))
        \<and> (\<forall>cid contract p.
              (cid, contract) \<in> set (file_contracts f) \<and> p \<in> set (Pieces contract)
              \<and> Chunk p = udc_staticChunkIndex (jobs ! k)
              \<and> (\<forall>cid' contract' p'.
                    (cid', contract') \<in> set (file_contracts f) \<and> p' \<in> set (Pieces contract')
                    \<and> Chunk p' = udc_staticChunkIndex (jobs ! k)
                    \<and> ResolveID r cid' = ResolveID r cid
                    \<longrightarrow> Piece p' = Piece p \<and> MerkleRoot p' = MerkleRoot p)
              \<longrightarrow> udc_staticChunkMap (jobs ! k) (ResolveID r cid)
                    = Some \<lparr>index = Piece p, root = MerkleRoot p\<rparr>))"
proof -
  from newDownload_enqueues [OF assms, of r now] obtain r' where
    r': "newDownload r params now = Some (Return (Inr (length (downloads r)), r'))"
        "downloadHeap r' = downloadHeap r @ jobsOf r params f"
        "downloads r' = downloads r @ [downloadOf params f now]"
    by blast
  let ?jobs = "jobsOf r params f"
  have len: "length ?jobs = unat (maxChunkOf params f) - unat (minChunkOf params f) + 1"
    using validated_min_le_max [OF assms] by (simp add: jobsOf_length chunkCount_def unat_sub)
  have d: "chunksRemaining (downloadOf params f now) = maxChunkOf params f - minChunkOf params f + 1"
    "unat (chunksRemaining (downloadOf params f now)) = length ?jobs"
    using chunksRemaining_downloadOf [OF assms] by (simp_all add: jobsOf_length)
  have each: "udc_staticChunkIndex (?jobs ! k) = minChunkOf params f + of_nat k
        \<and> unat (udc_staticChunkIndex (?jobs ! k)) = unat (minChunkOf params f) + k
        \<and> udc_download (?jobs ! k) = length (downloads r)
        \<and> dom (udc_staticChunkMap (?jobs ! k))
            = {ResolveID r cid | cid contract p.
                 (cid, contract) \<in> set (file_contracts f) \<and> p \<in> set (Pieces contract)
                 \<and> Chunk p = udc_staticChunkIndex (?jobs ! k)}
        \<and> (\<forall>rid info. udc_staticChunkMap (?jobs ! k) rid = Some info \<longrightarrow>
              (\<exists>cid contract p.
                 (cid, contract) \<in> set (file_contracts f) \<and> p \<in> set (Pieces contract)
                 \<and> Chunk p = udc_staticChunkIndex (?jobs ! k) \<and> ResolveID r cid = rid
                 \<and> info = \<lparr>index = Piece p, root = MerkleRoot p\<rparr>))
        \<and> (\<forall>cid contract p.
              (cid, contract) \<in> set (file_contracts f) \<and> p \<in> set (Pieces contract)
              \<and> Chunk p = udc_staticChunkIndex (?jobs ! k)
              \<and> (\<forall>cid' contract' p'.
                    (cid', contract') \<in> set (file_contracts f) \<and> p' \<in> set (Pieces contract')
                    \<and> Chunk p' = udc_staticChunkIndex (?jobs ! k)
                    \<and> ResolveID r cid' = ResolveID r cid
                    \<longrightarrow> Piece p' = Piece p \<and> MerkleRoot p' = MerkleRoot p)
              \<longrightarrow> udc_staticChunkMap (?jobs ! k) (ResolveID r cid)
                    = Some \<lparr>index = Piece p, root = MerkleRoot p\<rparr>)"
    if "k < length ?jobs" for k
  proof -
    have k: "k < chunkCount params f" using that by (simp add: jobsOf_length)
    let ?i = "minChunkOf params f + of_nat k"
    let ?xs = "chunkPieces (ResolveID r) (file_contracts f) ?i"
    have idx: "udc_staticChunkIndex (?jobs ! k) = ?i" by (rule job_chunkIndex [OF assms k])
    have cm: "udc_staticChunkMap (?jobs ! k) = putAll Map.empty ?xs" by (rule job_chunkMap [OF assms k])
    have dp: "udc_download (?jobs ! k) = length (downloads r)"
      by (simp only: jobsOf_nth [OF assms k] newChunk_fields)
    have "dom (putAll Map.empty ?xs)
            = {ResolveID r cid | cid contract p.
                 (cid, contract) \<in> set (file_contracts f) \<and> p \<in> set (Pieces contract)
                 \<and> Chunk p = ?i}"
    proof (rule set_eqI)
      fix rid
      show "(rid \<in> dom (putAll Map.empty ?xs))
            = (rid \<in> {ResolveID r cid | cid contract p.
                 (cid, contract) \<in> set (file_contracts f) \<and> p \<in> set (Pieces contract)
                 \<and> Chunk p = ?i})"
      proof
        assume "rid \<in> dom (putAll Map.empty ?xs)"
        then obtain info where "(rid, info) \<in> set ?xs"
          by (auto simp: putAll_dom)
        then show "rid \<in> {ResolveID r cid | cid contract p.
                 (cid, contract) \<in> set (file_contracts f) \<and> p \<in> set (Pieces contract)
                 \<and> Chunk p = ?i}"
          by (auto simp: set_chunkPieces)
      next
        assume "rid \<in> {ResolveID r cid | cid contract p.
                 (cid, contract) \<in> set (file_contracts f) \<and> p \<in> set (Pieces contract)
                 \<and> Chunk p = ?i}"
        then obtain cid contract p where
          "rid = ResolveID r cid" "(cid, contract) \<in> set (file_contracts f)"
          "p \<in> set (Pieces contract)" "Chunk p = ?i"
          by blast
        then have "(rid, pieceInfo p) \<in> set ?xs"
          unfolding set_chunkPieces by blast
        then have "rid \<in> fst ` set ?xs" by (rule image_eqI [rotated]) simp
        then show "rid \<in> dom (putAll Map.empty ?xs)" by (simp add: putAll_dom)
      qed
    qed
    moreover have "\<exists>cid contract p.
                 (cid, contract) \<in> set (file_contracts f) \<and> p \<in> set (Pieces contract)
                 \<and> Chunk p = ?i \<and> ResolveID r cid = rid
                 \<and> info = \<lparr>index = Piece p, root = MerkleRoot p\<rparr>"
      if "putAll Map.empty ?xs rid = Some info" for rid info
      using putAll_Some [OF that] by (auto simp: set_chunkPieces pieceInfo_def)
    moreover have "putAll Map.empty ?xs (ResolveID r cid) = Some \<lparr>index = Piece p, root = MerkleRoot p\<rparr>"
      if "(cid, contract) \<in> set (file_contracts f)" "p \<in> set (Pieces contract)" "Chunk p = ?i"
         "\<forall>cid' contract' p'.
                    (cid', contract') \<in> set (file_contracts f) \<and> p' \<in> set (Pieces contract')
                    \<and> Chunk p' = ?i \<and> ResolveID r cid' = ResolveID r cid
                    \<longrightarrow> Piece p' = Piece p \<and> MerkleRoot p' = MerkleRoot p"
      for cid contract p
    proof (rule putAll_unique)
      show "(ResolveID r cid, \<lparr>index = Piece p, root = MerkleRoot p\<rparr>) \<in> set ?xs"
        using that(1,2,3) by (auto simp: set_chunkPieces pieceInfo_def)
      show "\<forall>b'. (ResolveID r cid, b') \<in> set ?xs \<longrightarrow> b' = \<lparr>index = Piece p, root = MerkleRoot p\<rparr>"
        using that(4) by (auto simp: set_chunkPieces pieceInfo_def)
    qed
    ultimately show ?thesis
      unfolding idx cm using dp job_index(1) [OF assms k] by blast
  qed
  have defs: "minChunkOf params f = params_offset params div file_staticChunkSize f"
    "maxChunkOf params f
        = (params_offset params + params_length params - 1) div file_staticChunkSize f"
    by (simp_all add: minChunkOf_def maxChunkOf_def)
  note nat = validated_minChunk [of params f] validated_maxChunk [OF assms]
  note le = validated_min_le_max [OF assms]
  from r'(1) r'(2) r'(3) defs(1) defs(2) nat(1) nat(2) le len d(1) d(2) each
  show ?thesis
    by (intro exI [of _ r'] exI [of _ ?jobs] exI [of _ "downloadOf params f now"] conjI allI impI)
       (assumption | blast)+
qed

theorem newDownload_chunks_and_maps_witness:
  "validated (exParams 2 8) exFile
   \<and> map udc_staticChunkIndex (enqueued (newDownload exRenter (exParams 2 8) 0)) = [0, 1, 2]
   \<and> map (\<lambda>udc. dom (udc_staticChunkMap udc)) (enqueued (newDownload exRenter (exParams 2 8) 0))
       = [{1}, {}, {1, 2}]
   \<and> udc_staticChunkMap (enqueued (newDownload exRenter (exParams 2 8) 0) ! 2) 2
       = Some \<lparr>index = 1, root = 22\<rparr>
   \<and> map_option chunksRemaining (returnedDownload (newDownload exRenter (exParams 2 8) 0)) = Some 3"
proof -
  have v: "validated (exParams 2 8) exFile"
    by (simp add: validated_def exParams_def exFile_def)
  have mn: "minChunkOf (exParams 2 8) exFile = 0"
    by (simp add: minChunkOf_def exParams_def exFile_def)
  have mx: "maxChunkOf (exParams 2 8) exFile = 2"
    by (simp add: maxChunkOf_def exParams_def exFile_def)
  obtain r' jobs d where
    res: "newDownload exRenter (exParams 2 8) 0 = Some (Return (Inr (length (downloads exRenter)), r'))"
      and heap: "downloadHeap r' = downloadHeap exRenter @ jobs"
      and dl: "downloads r' = downloads exRenter @ [d]"
      and len: "length jobs = unat (maxChunkOf (exParams 2 8) exFile) - unat (minChunkOf (exParams 2 8) exFile) + 1"
      and rem: "chunksRemaining d = maxChunkOf (exParams 2 8) exFile - minChunkOf (exParams 2 8) exFile + 1"
      and each: "\<forall>k<length jobs.
          udc_staticChunkIndex (jobs ! k) = minChunkOf (exParams 2 8) exFile + of_nat k
        \<and> unat (udc_staticChunkIndex (jobs ! k)) = unat (minChunkOf (exParams 2 8) exFile) + k
        \<and> udc_download (jobs ! k) = length (downloads exRenter)
        \<and> dom (udc_staticChunkMap (jobs ! k))
            = {ResolveID exRenter cid | cid contract p.
                 (cid, contract) \<in> set (file_contracts exFile) \<and> p \<in> set (Pieces contract)
                 \<and> Chunk p = udc_staticChunkIndex (jobs ! k)}
        \<and> (\<forall>rid info. udc_staticChunkMap (jobs ! k) rid = Some info \<longrightarrow>
              (\<exists>cid contract p.
                 (cid, contract) \<in> set (file_contracts exFile) \<and> p \<in> set (Pieces contract)
                 \<and> Chunk p = udc_staticChunkIndex (jobs ! k) \<and> ResolveID exRenter cid = rid
                 \<and> info = \<lparr>index = Piece p, root = MerkleRoot p\<rparr>))
        \<and> (\<forall>cid contract p.
              (cid, contract) \<in> set (file_contracts exFile) \<and> p \<in> set (Pieces contract)
              \<and> Chunk p = udc_staticChunkIndex (jobs ! k)
              \<and> (\<forall>cid' contract' p'.
                    (cid', contract') \<in> set (file_contracts exFile) \<and> p' \<in> set (Pieces contract')
                    \<and> Chunk p' = udc_staticChunkIndex (jobs ! k)
                    \<and> ResolveID exRenter cid' = ResolveID exRenter cid
                    \<longrightarrow> Piece p' = Piece p \<and> MerkleRoot p' = MerkleRoot p)
              \<longrightarrow> udc_staticChunkMap (jobs ! k) (ResolveID exRenter cid)
                    = Some \<lparr>index = Piece p, root = MerkleRoot p\<rparr>)"
    using newDownload_chunks_and_maps [OF v, of exRenter 0]
    by (elim exE conjE) (rule that; assumption)
  have len3: "length jobs = 3" using len by (simp add: mn mx)
  have enq: "enqueued (newDownload exRenter (exParams 2 8) 0) = jobs"
    using res heap by (simp add: enqueued_def exRenter_def)
  have ret: "returnedDownload (newDownload exRenter (exParams 2 8) 0) = Some d"
    using res dl by (simp add: returnedDownload_def exRenter_def)
  have rem3: "chunksRemaining d = 3" using rem by (simp add: mn mx)
  have jobs: "jobs = [jobs ! 0, jobs ! 1, jobs ! 2]"
    by (rule list_of_length3 [OF len3])
  have i0: "udc_staticChunkIndex (jobs ! 0) = 0"
    using each [rule_format, of 0] len3 by (simp add: mn)
  have i1: "udc_staticChunkIndex (jobs ! 1) = 1"
    using each [rule_format, of 1] len3 by (simp add: mn)
  have i2: "udc_staticChunkIndex (jobs ! 2) = 2"
    using each [rule_format, of 2] len3 by (simp add: mn)
  have lt: "0 < length jobs" "1 < length jobs" "2 < length jobs" by (simp_all add: len3)
  have e0: "dom (udc_staticChunkMap (jobs ! 0))
            = {ResolveID exRenter cid | cid contract p.
                 (cid, contract) \<in> set (file_contracts exFile) \<and> p \<in> set (Pieces contract)
                 \<and> Chunk p = udc_staticChunkIndex (jobs ! 0)}"
    using each [rule_format, OF lt(1)] by blast
  have e1: "dom (udc_staticChunkMap (jobs ! 1))
            = {ResolveID exRenter cid | cid contract p.
                 (cid, contract) \<in> set (file_contracts exFile) \<and> p \<in> set (Pieces contract)
                 \<and> Chunk p = udc_staticChunkIndex (jobs ! 1)}"
    using each [rule_format, OF lt(2)] by blast
  have e2: "dom (udc_staticChunkMap (jobs ! 2))
            = {ResolveID exRenter cid | cid contract p.
                 (cid, contract) \<in> set (file_contracts exFile) \<and> p \<in> set (Pieces contract)
                 \<and> Chunk p = udc_staticChunkIndex (jobs ! 2)}"
    using each [rule_format, OF lt(3)] by blast
  have d0: "dom (udc_staticChunkMap (jobs ! 0)) = {1}"
    by (simp only: e0 i0 ex_keys0)
  have d1: "dom (udc_staticChunkMap (jobs ! 1)) = {}"
    by (simp only: e1 i1 ex_keys1)
  have d2: "dom (udc_staticChunkMap (jobs ! 2)) = {1, 2}"
    by (simp only: e2 i2 ex_keys2)
  have u2: "\<forall>cid contract p.
              (cid, contract) \<in> set (file_contracts exFile) \<and> p \<in> set (Pieces contract)
              \<and> Chunk p = 2
              \<and> (\<forall>cid' contract' p'.
                    (cid', contract') \<in> set (file_contracts exFile) \<and> p' \<in> set (Pieces contract')
                    \<and> Chunk p' = 2
                    \<and> ResolveID exRenter cid' = ResolveID exRenter cid
                    \<longrightarrow> Piece p' = Piece p \<and> MerkleRoot p' = MerkleRoot p)
              \<longrightarrow> udc_staticChunkMap (jobs ! 2) (ResolveID exRenter cid)
                    = Some \<lparr>index = Piece p, root = MerkleRoot p\<rparr>"
    using each [rule_format, OF lt(3)] unfolding i2 by blast
  have m2: "udc_staticChunkMap (jobs ! 2) 2 = Some \<lparr>index = 1, root = 22\<rparr>"
    using u2 [rule_format, OF ex_piece] by (simp add: exRenter_def)
  have "map udc_staticChunkIndex jobs = [0, 1, 2]"
    by (subst jobs) (simp add: i0 i1 i2 del: One_nat_def)
  moreover have "map (\<lambda>udc. dom (udc_staticChunkMap udc)) jobs = [{1}, {}, {1, 2}]"
    by (subst jobs) (simp add: d0 d1 d2 del: One_nat_def)
  ultimately show ?thesis using v enq ret rem3 m2 by simp
qed

section \<open>Write offsets\<close>

text \<open>
  Claim C10, as amended. For every validated download, each chunk's
  \<^verbatim>\<open>staticWriteOffset\<close> is the \<^verbatim>\<open>int64\<close> conversion of the sum of the fetch lengths of
  all earlier chunks: the first is 0, and the bits of each are those of the sum, which
  does not wrap as a \<^verbatim>\<open>uint64\<close>. Every fetch length is positive, the fetch lengths sum to
  exactly the requested length, and each range ends within the requested length. Read as
  a signed number, the write offset equals the sum whenever the sum is below \<open>2^63\<close>, in
  particular for every chunk of a download whose length is below \<open>2^63\<close>: then the write
  ranges are consecutive, start at 0 and partition the requested length.
\<close>

theorem newDownload_write_offsets:
  assumes "validated params f"
  shows "\<exists>r' jobs.
      newDownload r params now = Some (Return (Inr (length (downloads r)), r'))
    \<and> downloadHeap r' = downloadHeap r @ jobs
    \<and> length jobs = unat (maxChunkOf params f - minChunkOf params f) + 1
    \<and> udc_staticWriteOffset (jobs ! 0) = 0
    \<and> (\<forall>k<length jobs.
          udc_staticWriteOffset (jobs ! k) = sum_list (map udc_staticFetchLength (take k jobs))
        \<and> unat (udc_staticWriteOffset (jobs ! k))
            = sum_list (map (\<lambda>j. unat (udc_staticFetchLength j)) (take k jobs))
        \<and> 0 < unat (udc_staticFetchLength (jobs ! k))
        \<and> unat (udc_staticWriteOffset (jobs ! k)) + unat (udc_staticFetchLength (jobs ! k))
            \<le> unat (params_length params)
        \<and> (unat (udc_staticWriteOffset (jobs ! k)) < 2 ^ 63 \<longrightarrow>
             sint (udc_staticWriteOffset (jobs ! k))
             = int (sum_list (map (\<lambda>j. unat (udc_staticFetchLength j)) (take k jobs)))))
    \<and> sum_list (map (\<lambda>j. unat (udc_staticFetchLength j)) jobs) = unat (params_length params)
    \<and> (unat (params_length params) < 2 ^ 63 \<longrightarrow>
         (\<forall>k<length jobs.
            sint (udc_staticWriteOffset (jobs ! k))
            = int (sum_list (map (\<lambda>j. unat (udc_staticFetchLength j)) (take k jobs)))))"
proof -
  from newDownload_enqueues [OF assms, of r now] obtain r' where
    r': "newDownload r params now = Some (Return (Inr (length (downloads r)), r'))"
        "downloadHeap r' = downloadHeap r @ jobsOf r params f"
    by blast
  let ?jobs = "jobsOf r params f"
  have len: "length ?jobs = unat (maxChunkOf params f - minChunkOf params f) + 1"
    by (simp add: jobsOf_length chunkCount_def)
  have k0: "0 < chunkCount params f" by (simp add: chunkCount_def)
  have first: "udc_staticWriteOffset (?jobs ! 0) = 0"
    using job_writeOffset(1) [OF assms k0, of r] by simp
  have each: "udc_staticWriteOffset (?jobs ! k) = sum_list (map udc_staticFetchLength (take k ?jobs))
        \<and> unat (udc_staticWriteOffset (?jobs ! k))
            = sum_list (map (\<lambda>j. unat (udc_staticFetchLength j)) (take k ?jobs))
        \<and> 0 < unat (udc_staticFetchLength (?jobs ! k))
        \<and> unat (udc_staticWriteOffset (?jobs ! k)) + unat (udc_staticFetchLength (?jobs ! k))
            \<le> unat (params_length params)
        \<and> (unat (udc_staticWriteOffset (?jobs ! k)) < 2 ^ 63 \<longrightarrow>
             sint (udc_staticWriteOffset (?jobs ! k))
             = int (sum_list (map (\<lambda>j. unat (udc_staticFetchLength j)) (take k ?jobs))))"
    if "k < length ?jobs" for k
  proof -
    have k: "k < chunkCount params f" using that by (simp add: jobsOf_length)
    note w = job_writeOffset [OF assms k, of r]
    have "sint (udc_staticWriteOffset (?jobs ! k))
             = int (sum_list (map (\<lambda>j. unat (udc_staticFetchLength j)) (take k ?jobs)))"
      if "unat (udc_staticWriteOffset (?jobs ! k)) < 2 ^ 63"
      using sint_small [OF that] w(2) by simp
    then show ?thesis using w by blast
  qed
  have total: "sum_list (map (\<lambda>j. unat (udc_staticFetchLength j)) ?jobs) = unat (params_length params)"
    by (rule job_total [OF assms])
  have small: "sint (udc_staticWriteOffset (?jobs ! k))
            = int (sum_list (map (\<lambda>j. unat (udc_staticFetchLength j)) (take k ?jobs)))"
    if "k < length ?jobs" and l: "unat (params_length params) < 2 ^ 63" for k
  proof -
    have k: "k < chunkCount params f" using that by (simp add: jobsOf_length)
    note w = job_writeOffset [OF assms k, of r]
    have "unat (udc_staticWriteOffset (?jobs ! k)) < 2 ^ 63" using w(3) l by linarith
    from sint_small [OF this] w(2) show ?thesis by simp
  qed
  from r'(1) r'(2) len first each total small
  show ?thesis
    by (intro exI [of _ r'] exI [of _ ?jobs] conjI allI impI) (assumption | blast)+
qed

theorem newDownload_write_offsets_witness:
  "validated (exParams 2 8) exFile
   \<and> unat (params_length (exParams 2 8)) < 2 ^ 63
   \<and> map udc_staticFetchLength (enqueued (newDownload exRenter (exParams 2 8) 0)) = [2, 4, 2]
   \<and> map (\<lambda>udc. sint (udc_staticWriteOffset udc)) (enqueued (newDownload exRenter (exParams 2 8) 0))
       = [0, 2, 6]"
proof -
  have v: "validated (exParams 2 8) exFile"
    by (simp add: validated_def exParams_def exFile_def)
  have mn: "minChunkOf (exParams 2 8) exFile = 0"
    by (simp add: minChunkOf_def exParams_def exFile_def)
  have mx: "maxChunkOf (exParams 2 8) exFile = 2"
    by (simp add: maxChunkOf_def exParams_def exFile_def)
  have small: "unat (params_length (exParams 2 8)) < 2 ^ 63"
    by (simp add: exParams_def)
  obtain r' jobs where
    res: "newDownload exRenter (exParams 2 8) 0 = Some (Return (Inr (length (downloads exRenter)), r'))"
      and heap: "downloadHeap r' = downloadHeap exRenter @ jobs"
      and len: "length jobs = unat (maxChunkOf (exParams 2 8) exFile - minChunkOf (exParams 2 8) exFile) + 1"
      and first: "udc_staticWriteOffset (jobs ! 0) = 0"
      and each: "\<forall>k<length jobs.
          udc_staticWriteOffset (jobs ! k) = sum_list (map udc_staticFetchLength (take k jobs))
        \<and> unat (udc_staticWriteOffset (jobs ! k))
            = sum_list (map (\<lambda>j. unat (udc_staticFetchLength j)) (take k jobs))
        \<and> 0 < unat (udc_staticFetchLength (jobs ! k))
        \<and> unat (udc_staticWriteOffset (jobs ! k)) + unat (udc_staticFetchLength (jobs ! k))
            \<le> unat (params_length (exParams 2 8))
        \<and> (unat (udc_staticWriteOffset (jobs ! k)) < 2 ^ 63 \<longrightarrow>
             sint (udc_staticWriteOffset (jobs ! k))
             = int (sum_list (map (\<lambda>j. unat (udc_staticFetchLength j)) (take k jobs))))"
      and total: "sum_list (map (\<lambda>j. unat (udc_staticFetchLength j)) jobs)
                  = unat (params_length (exParams 2 8))"
      and exact: "unat (params_length (exParams 2 8)) < 2 ^ 63 \<longrightarrow>
         (\<forall>k<length jobs.
            sint (udc_staticWriteOffset (jobs ! k))
            = int (sum_list (map (\<lambda>j. unat (udc_staticFetchLength j)) (take k jobs))))"
    using newDownload_write_offsets [OF v, of exRenter 0]
    by (elim exE conjE) (rule that; assumption)
  have len3: "length jobs = 3" using len by (simp add: mn mx)
  have lt: "0 < length jobs" "1 < length jobs" "2 < length jobs" by (simp_all add: len3)
  have enq: "enqueued (newDownload exRenter (exParams 2 8) 0) = jobs"
    using res heap by (simp add: enqueued_def exRenter_def)
  have jobs: "jobs = [jobs ! 0, jobs ! 1, jobs ! 2]"
    by (rule list_of_length3 [OF len3])
  have t0: "take 0 jobs = []" and t1: "take 1 jobs = [jobs ! 0]" and t2: "take 2 jobs = [jobs ! 0, jobs ! 1]"
    by (subst jobs, simp)+
  have jj: "jobs = jobsOf exRenter (exParams 2 8) exFile"
    using enq enqueued_validated [OF v, of exRenter 0] by (simp add: exRenter_def)
  have n: "chunkCount (exParams 2 8) exFile = 3" by (simp add: chunkCount_def mn mx)
  have k: "0 < chunkCount (exParams 2 8) exFile" "1 < chunkCount (exParams 2 8) exFile"
    "2 < chunkCount (exParams 2 8) exFile" by (simp_all add: n)
  have vals: "params_offset (exParams 2 8) = 2" "params_length (exParams 2 8) = 8"
    "file_staticChunkSize exFile = 4"
    by (simp_all add: exParams_def exFile_def)
  have fl0: "udc_staticFetchLength (jobs ! 0) = 2"
    unfolding jj by (simp add: job_fetchLength [OF v k(1)] job_fetchOffset [OF v k(1)] n vals)
  have fl1: "udc_staticFetchLength (jobs ! 1) = 4"
    unfolding jj by (simp add: job_fetchLength [OF v k(2)] job_fetchOffset [OF v k(2)] n vals del: One_nat_def)
  have fl2: "udc_staticFetchLength (jobs ! 2) = 2"
    unfolding jj by (simp add: job_fetchLength [OF v k(3)] job_fetchOffset [OF v k(3)] n vals)
  have x: "\<forall>k<length jobs.
            sint (udc_staticWriteOffset (jobs ! k))
            = int (sum_list (map (\<lambda>j. unat (udc_staticFetchLength j)) (take k jobs)))"
    using exact small by blast
  have s0: "sint (udc_staticWriteOffset (jobs ! 0)) = 0"
    using x [rule_format, OF lt(1)] by (simp add: t0)
  have s1: "sint (udc_staticWriteOffset (jobs ! 1)) = 2"
    using x [rule_format, OF lt(2)] by (simp add: t1 fl0 del: One_nat_def)
  have s2: "sint (udc_staticWriteOffset (jobs ! 2)) = 6"
    using x [rule_format, OF lt(3)] by (simp add: t2 fl0 fl1 del: One_nat_def)
  have "map udc_staticFetchLength jobs = [2, 4, 2]"
    by (subst jobs) (simp add: fl0 fl1 fl2 del: One_nat_def)
  moreover have "map (\<lambda>udc. sint (udc_staticWriteOffset udc)) jobs = [0, 2, 6]"
    by (subst jobs) (simp add: s0 s1 s2 del: One_nat_def)
  ultimately show ?thesis using v small enq by simp
qed

text \<open>
  The claim as stated fails where the sum of the earlier fetch lengths does not fit in an
  \<^verbatim>\<open>int64\<close>: a download of \<open>2^63 + 1\<close> bytes in chunks of \<open>2^63\<close> bytes has the fetch
  lengths \<open>2^63\<close> and 1, and the write offset of its second chunk is \<open>- 2^63\<close>.
\<close>

theorem newDownload_write_offsets_counterexample:
  "validated exBigParams exBigFile
   \<and> map udc_staticFetchLength (enqueued (newDownload exRenter exBigParams 0))
       = [9223372036854775808, 1]
   \<and> map (\<lambda>udc. sint (udc_staticWriteOffset udc)) (enqueued (newDownload exRenter exBigParams 0))
       = [0, - 9223372036854775808]"
proof -
  have v: "validated exBigParams exBigFile"
    by (simp add: validated_def exBigParams_def exBigFile_def exParams_def exFile_def)
  have mn: "minChunkOf exBigParams exBigFile = 0"
    by (simp add: minChunkOf_def exBigParams_def exBigFile_def exParams_def exFile_def)
  have mx: "maxChunkOf exBigParams exBigFile = 1"
    by (simp add: maxChunkOf_def exBigParams_def exBigFile_def exParams_def exFile_def)
  have n: "chunkCount exBigParams exBigFile = 2" by (simp add: chunkCount_def mn mx)
  have k: "0 < chunkCount exBigParams exBigFile" "1 < chunkCount exBigParams exBigFile"
    by (simp_all add: n)
  have vals: "params_offset exBigParams = 0" "params_length exBigParams = 9223372036854775809"
    "file_staticChunkSize exBigFile = 9223372036854775808"
    by (simp_all add: exBigParams_def exBigFile_def exParams_def exFile_def)
  let ?jobs = "jobsOf exRenter exBigParams exBigFile"
  have enq: "enqueued (newDownload exRenter exBigParams 0) = ?jobs"
    by (rule enqueued_validated [OF v]) (simp add: exRenter_def)
  have fl0: "udc_staticFetchLength (?jobs ! 0) = 9223372036854775808"
    using job_fetchLength [OF v k(1), of exRenter] job_fetchOffset [OF v k(1), of exRenter]
    by (simp add: n vals)
  have fl1: "udc_staticFetchLength (?jobs ! 1) = 1"
    using job_fetchLength [OF v k(2), of exRenter] job_fetchOffset [OF v k(2), of exRenter]
    by (simp add: n vals)
  have t1: "take 1 ?jobs = [?jobs ! 0]"
    using k(1) by (simp add: take_Suc_conv_app_nth jobsOf_length)
  have w0: "udc_staticWriteOffset (?jobs ! 0) = 0"
    using job_writeOffset(1) [OF v k(1), of exRenter] by simp
  have w1: "udc_staticWriteOffset (?jobs ! 1) = 9223372036854775808"
    using job_writeOffset(1) [OF v k(2), of exRenter] t1 fl0 by simp
  have up: "[0..<2] = [0, 1]" by (simp add: upt_rec)
  have s1: "sint (9223372036854775808 :: int64) = - 9223372036854775808" by simp
  have "map udc_staticFetchLength ?jobs = [9223372036854775808, 1]"
    using fl0 fl1 by (simp add: map_jobsOf [of udc_staticFetchLength] n up)
  moreover have "map (\<lambda>udc. sint (udc_staticWriteOffset udc)) ?jobs = [0, - 9223372036854775808]"
    using w0 w1 s1 by (simp add: map_jobsOf [of "\<lambda>udc. sint (udc_staticWriteOffset udc)"] n up)
  ultimately show ?thesis using v enq by simp
qed

section \<open>Validation errors of Download\<close>

text \<open>
  Claim C6. \<^verbatim>\<open>Download\<close> returns each of the five pre-flight errors under its condition,
  in the order of the checks: no file with the path; async together with an http writer;
  an http writer together with a destination; neither of them; a destination that is not
  absolute. In the validation itself each of the five errors is returned exactly under
  its condition with all earlier conditions false, and the validation passes only when
  none of the five conditions holds.
\<close>

theorem Download_validation_errors:
  "(files r (p_SiaPath p) = None \<longrightarrow>
      Download r p env = Some (Return (Some (New (''no file with that path: '' @ p_SiaPath p)), r)))
   \<and> (files r (p_SiaPath p) \<noteq> None \<and> p_Async p \<and> p_Httpwriter p \<noteq> None \<longrightarrow>
      Download r p env = Some (Return (Some (New ''cannot async download to http response''), r)))
   \<and> (files r (p_SiaPath p) \<noteq> None \<and> \<not> p_Async p \<and> p_Httpwriter p \<noteq> None
        \<and> p_Destination p \<noteq> [] \<longrightarrow>
      Download r p env = Some (Return (Some (New
        ''destination cannot be specified when downloading to http response''), r)))
   \<and> (files r (p_SiaPath p) \<noteq> None \<and> p_Httpwriter p = None \<and> p_Destination p = [] \<longrightarrow>
      Download r p env = Some (Return (Some (New ''destination not supplied''), r)))
   \<and> (files r (p_SiaPath p) \<noteq> None \<and> p_Httpwriter p = None \<and> p_Destination p \<noteq> []
        \<and> \<not> IsAbs (p_Destination p) \<longrightarrow>
      Download r p env = Some (Return (Some (New ''destination must be an absolute path''), r)))
   \<and> ((Download_validate r p = Inl (New (''no file with that path: '' @ p_SiaPath p)))
        = (files r (p_SiaPath p) = None))
   \<and> ((Download_validate r p = Inl (New ''cannot async download to http response''))
        = (files r (p_SiaPath p) \<noteq> None \<and> p_Async p \<and> p_Httpwriter p \<noteq> None))
   \<and> ((Download_validate r p
          = Inl (New ''destination cannot be specified when downloading to http response''))
        = (files r (p_SiaPath p) \<noteq> None \<and> \<not> p_Async p \<and> p_Httpwriter p \<noteq> None
           \<and> p_Destination p \<noteq> []))
   \<and> ((Download_validate r p = Inl (New ''destination not supplied''))
        = (files r (p_SiaPath p) \<noteq> None \<and> p_Httpwriter p = None \<and> p_Destination p = []))
   \<and> ((Download_validate r p = Inl (New ''destination must be an absolute path''))
        = (files r (p_SiaPath p) \<noteq> None \<and> p_Httpwriter p = None \<and> p_Destination p \<noteq> []
           \<and> \<not> IsAbs (p_Destination p)))
   \<and> (\<forall>f p'. Download_validate r p = Inr (f, p') \<longrightarrow>
         files r (p_SiaPath p) = Some f
         \<and> \<not> (p_Async p \<and> p_Httpwriter p \<noteq> None)
         \<and> \<not> (p_Httpwriter p \<noteq> None \<and> p_Destination p \<noteq> [])
         \<and> \<not> (p_Httpwriter p = None \<and> p_Destination p = [])
         \<and> \<not> (p_Destination p \<noteq> [] \<and> \<not> IsAbs (p_Destination p)))"
proof (intro conjI)
  show "files r (p_SiaPath p) = None \<longrightarrow>
      Download r p env = Some (Return (Some (New (''no file with that path: '' @ p_SiaPath p)), r))"
    by (simp add: Download_def validate_cases)
  show "files r (p_SiaPath p) \<noteq> None \<and> p_Async p \<and> p_Httpwriter p \<noteq> None \<longrightarrow>
      Download r p env = Some (Return (Some (New ''cannot async download to http response''), r))"
    by (auto simp: Download_def validate_cases)
  show "files r (p_SiaPath p) \<noteq> None \<and> \<not> p_Async p \<and> p_Httpwriter p \<noteq> None
        \<and> p_Destination p \<noteq> [] \<longrightarrow>
      Download r p env = Some (Return (Some (New
        ''destination cannot be specified when downloading to http response''), r))"
    by (auto simp: Download_def validate_cases)
  show "files r (p_SiaPath p) \<noteq> None \<and> p_Httpwriter p = None \<and> p_Destination p = [] \<longrightarrow>
      Download r p env = Some (Return (Some (New ''destination not supplied''), r))"
    by (auto simp: Download_def validate_cases)
  show "files r (p_SiaPath p) \<noteq> None \<and> p_Httpwriter p = None \<and> p_Destination p \<noteq> []
        \<and> \<not> IsAbs (p_Destination p) \<longrightarrow>
      Download r p env = Some (Return (Some (New ''destination must be an absolute path''), r))"
    by (auto simp: Download_def validate_cases)
  show "(Download_validate r p = Inl (New (''no file with that path: '' @ p_SiaPath p)))
        = (files r (p_SiaPath p) = None)"
    by (simp add: validate_cases split: option.splits)
  show "(Download_validate r p = Inl (New ''cannot async download to http response''))
        = (files r (p_SiaPath p) \<noteq> None \<and> p_Async p \<and> p_Httpwriter p \<noteq> None)"
    by (auto simp: validate_cases split: option.splits)
  show "(Download_validate r p
          = Inl (New ''destination cannot be specified when downloading to http response''))
        = (files r (p_SiaPath p) \<noteq> None \<and> \<not> p_Async p \<and> p_Httpwriter p \<noteq> None
           \<and> p_Destination p \<noteq> [])"
    by (auto simp: validate_cases split: option.splits)
  show "(Download_validate r p = Inl (New ''destination not supplied''))
        = (files r (p_SiaPath p) \<noteq> None \<and> p_Httpwriter p = None \<and> p_Destination p = [])"
    by (auto simp: validate_cases split: option.splits)
  show "(Download_validate r p = Inl (New ''destination must be an absolute path''))
        = (files r (p_SiaPath p) \<noteq> None \<and> p_Httpwriter p = None \<and> p_Destination p \<noteq> []
           \<and> \<not> IsAbs (p_Destination p))"
    by (auto simp: validate_cases split: option.splits)
  show "\<forall>f p'. Download_validate r p = Inr (f, p') \<longrightarrow>
         files r (p_SiaPath p) = Some f
         \<and> \<not> (p_Async p \<and> p_Httpwriter p \<noteq> None)
         \<and> \<not> (p_Httpwriter p \<noteq> None \<and> p_Destination p \<noteq> [])
         \<and> \<not> (p_Httpwriter p = None \<and> p_Destination p = [])
         \<and> \<not> (p_Destination p \<noteq> [] \<and> \<not> IsAbs (p_Destination p))"
    by (auto simp: validate_cases split: option.splits if_splits)
qed

theorem Download_validation_errors_witness:
  "Download exRenter (exRequest False None 0 0 ''b'' ''/tmp/out'') exEnv
     = Some (Return (Some (New ''no file with that path: b''), exRenter))
   \<and> Download exRenter (exRequest True (Some 1) 0 0 ''a'' ''/tmp/out'') exEnv
     = Some (Return (Some (New ''cannot async download to http response''), exRenter))
   \<and> Download exRenter (exRequest False (Some 1) 0 0 ''a'' ''/tmp/out'') exEnv
     = Some (Return (Some (New
         ''destination cannot be specified when downloading to http response''), exRenter))
   \<and> Download exRenter (exRequest False None 0 0 ''a'' []) exEnv
     = Some (Return (Some (New ''destination not supplied''), exRenter))
   \<and> Download exRenter (exRequest False None 0 0 ''a'' ''tmp/out'') exEnv
     = Some (Return (Some (New ''destination must be an absolute path''), exRenter))
   \<and> Download_validate exRenter (exRequest False None 0 0 ''a'' ''/tmp/out'')
     = Inr (exFile, exRequest False None 12 0 ''a'' ''/tmp/out'')
   \<and> files exRenter ''a'' = Some exFile \<and> IsAbs ''/tmp/out''"
proof -
  have f: "files exRenter ''a'' = Some exFile" "files exRenter ''b'' = None"
    by (simp_all add: exRenter_def)
  have a: "IsAbs ''/tmp/out''" "\<not> IsAbs ''tmp/out''" by (simp_all add: IsAbs_def)
  have 1: "Download exRenter (exRequest False None 0 0 ''b'' ''/tmp/out'') exEnv
     = Some (Return (Some (New ''no file with that path: b''), exRenter))"
    using Download_validation_errors [of exRenter "exRequest False None 0 0 ''b'' ''/tmp/out''" exEnv] f
    by (simp add: exRequest_def)
  have 2: "Download exRenter (exRequest True (Some 1) 0 0 ''a'' ''/tmp/out'') exEnv
     = Some (Return (Some (New ''cannot async download to http response''), exRenter))"
    using Download_validation_errors [of exRenter "exRequest True (Some 1) 0 0 ''a'' ''/tmp/out''" exEnv] f
    by (simp add: exRequest_def)
  have 3: "Download exRenter (exRequest False (Some 1) 0 0 ''a'' ''/tmp/out'') exEnv
     = Some (Return (Some (New
         ''destination cannot be specified when downloading to http response''), exRenter))"
    using Download_validation_errors [of exRenter "exRequest False (Some 1) 0 0 ''a'' ''/tmp/out''" exEnv] f
    by (simp add: exRequest_def)
  have 4: "Download exRenter (exRequest False None 0 0 ''a'' []) exEnv
     = Some (Return (Some (New ''destination not supplied''), exRenter))"
    using Download_validation_errors [of exRenter "exRequest False None 0 0 ''a'' []" exEnv] f
    by (simp add: exRequest_def)
  have 5: "Download exRenter (exRequest False None 0 0 ''a'' ''tmp/out'') exEnv
     = Some (Return (Some (New ''destination must be an absolute path''), exRenter))"
    using Download_validation_errors [of exRenter "exRequest False None 0 0 ''a'' ''tmp/out''" exEnv] f a
    by (simp add: exRequest_def)
  have 6: "Download_validate exRenter (exRequest False None 0 0 ''a'' ''/tmp/out'')
     = Inr (exFile, exRequest False None 12 0 ''a'' ''/tmp/out'')"
    using f a by (simp add: validate_cases exRequest_def exFile_def)
  from 1 2 3 4 5 6 f(1) a(1) show ?thesis by blast
qed

section \<open>Shutdown while Download waits\<close>

text \<open>
  Claim C5, as amended. When the stop channel is closed while a synchronous \<^verbatim>\<open>Download\<close>
  waits for a download that has not completed (or the \<^verbatim>\<open>select\<close> picks the stop channel),
  \<^verbatim>\<open>Download\<close> returns the error "download interrupted by shutdown". It does not fail
  the download: the renter it leaves is the one the other goroutines left, the download
  it had appended to the history was created with an open completion channel and a nil
  error, and \<^verbatim>\<open>Download\<close> changes neither.
\<close>

theorem Download_interrupted_by_shutdown:
  assumes "Download_validate r p0 = Inr (f, p)"
    and "Download_enqueue r f p env = Some (Return (Inr d, r2))"
    and "d < length (downloads (env_others env r2))"
    and "env_stopped env"
    and "\<not> staticComplete (downloads (env_others env r2) ! d) \<or> env_pickStop env"
  shows "Download r p0 env
           = Some (Return (Some (New ''download interrupted by shutdown''), env_others env r2))
    \<and> downloadHistory r2 = downloadHistory r @ [d]
    \<and> d < length (downloads r2)
    \<and> \<not> staticComplete (downloads r2 ! d)
    \<and> Err (downloads r2 ! d) = None"
proof -
  from Download_enqueue_Inr [OF assms(2)] obtain x where
    x: "d = length (downloads r)" "downloads r2 = downloads r @ [x]"
       "downloadHistory r2 = downloadHistory r @ [d]"
       "completeChan x = ChanOpen" "err x = None"
    by blast
  have "Download r p0 env = Download_wait r2 d env"
    using assms(1,2) by (simp add: Download_def)
  also have "\<dots> = Some (Return (Some (New ''download interrupted by shutdown''), env_others env r2))"
    using assms(3,4,5) by (auto simp: Download_wait_def Let_def)
  finally show ?thesis
    using x by (simp add: staticComplete_def Err_def)
qed

theorem Download_interrupted_by_shutdown_witness:
  "Download_validate exRenter (exRequest False None 0 0 ''a'' ''/tmp/out'')
     = Inr (exFile, exRequest False None 12 0 ''a'' ''/tmp/out'')
   \<and> env_stopped exEnv
   \<and> returnedError (Download exRenter (exRequest False None 0 0 ''a'' ''/tmp/out'') exEnv)
       = Some (New ''download interrupted by shutdown'')
   \<and> map_option downloadHistory
        (renterAfter (Download exRenter (exRequest False None 0 0 ''a'' ''/tmp/out'') exEnv))
       = Some [0]"
proof -
  from ex_enqueue obtain r2 where
    e: "Download_enqueue exRenter exFile (exRequest False None 12 0 ''a'' ''/tmp/out'') exEnv
           = Some (Return (Inr 0, r2))"
    and d: "downloads r2 = [downloadOf (exParams 0 12) exFile 7]"
    and h: "downloadHistory r2 = [0]"
    by blast
  have o: "env_others exEnv r2 = r2" and st: "env_stopped exEnv" by (simp_all add: exEnv_def)
  have len: "0 < length (downloads (env_others exEnv r2))" by (simp add: o d)
  have pend: "\<not> staticComplete (downloads (env_others exEnv r2) ! 0) \<or> env_pickStop exEnv"
    by (simp add: exEnv_def)
  from Download_interrupted_by_shutdown [OF ex_validate e len st pend]
  have "Download exRenter (exRequest False None 0 0 ''a'' ''/tmp/out'') exEnv
          = Some (Return (Some (New ''download interrupted by shutdown''), r2))"
    by (simp add: o)
  then show ?thesis using ex_validate st h
    by (simp add: returnedError_def renterAfter_def)
qed

text \<open>
  The claim as stated fails when no other goroutine acts: after the interrupted call the
  history reports the download as not completed, with an empty error string.
\<close>

theorem Download_shutdown_leaves_download_pending_counterexample:
  "returnedError (Download exRenter (exRequest False None 0 0 ''a'' ''/tmp/out'') exEnv)
     = Some (New ''download interrupted by shutdown'')
   \<and> map_option DownloadHistory
        (renterAfter (Download exRenter (exRequest False None 0 0 ''a'' ''/tmp/out'') exEnv))
     = Some (Return
         [\<lparr>Destination = ''/tmp/out'', DestinationType = [], Length = 12, Offset = 0,
           SiaPath = ''a'', Completed = False, EndTime = 0, Received = 0, StartTime = 7,
           TotalDataTransfered = 0, Error = []\<rparr>])"
proof -
  from ex_enqueue obtain r2 where
    e: "Download_enqueue exRenter exFile (exRequest False None 12 0 ''a'' ''/tmp/out'') exEnv
           = Some (Return (Inr 0, r2))"
    and d: "downloads r2 = [downloadOf (exParams 0 12) exFile 7]"
    and h: "downloadHistory r2 = [0]"
    by blast
  have w: "Download_wait r2 0 exEnv
           = Some (Return (Some (New ''download interrupted by shutdown''), r2))"
    by (simp add: Download_wait_def exEnv_def d Let_def)
  have dl: "Download exRenter (exRequest False None 0 0 ''a'' ''/tmp/out'') exEnv
          = Some (Return (Some (New ''download interrupted by shutdown''), r2))"
    by (simp add: Download_def ex_validate e w)
  have hist: "DownloadHistory r2 = Return
         [\<lparr>Destination = ''/tmp/out'', DestinationType = [], Length = 12, Offset = 0,
           SiaPath = ''a'', Completed = False, EndTime = 0, Received = 0, StartTime = 7,
           TotalDataTransfered = 0, Error = []\<rparr>]"
    by (simp add: DownloadHistory_def historyEntry_def h d Let_def downloadOf_def exParams_def
          exFile_def staticComplete_def Err_def)
  show ?thesis using dl hist by (simp add: returnedError_def renterAfter_def)
qed

section \<open>Offsets beyond the end of the file\<close>

text \<open>
  Claim C1 does not hold of the code: the range check adds \<^verbatim>\<open>uint64\<close> values and the
  sentinel length is computed by a \<^verbatim>\<open>uint64\<close> subtraction, both of which wrap around. On
  a file of 12 bytes, a request with offset 13 and the sentinel length 0 passes the
  validation of \<^verbatim>\<open>Download\<close> with the length \<open>2^64 - 1\<close>; so does a request with offset
  13 and length \<open>2^64 - 6\<close>. \<^verbatim>\<open>newDownload\<close> accepts offset 13 with length \<open>2^64 - 1\<close>
  and returns a download without chunks, and \<^verbatim>\<open>Download\<close> records it in the history and
  waits for it until shutdown.
\<close>

theorem Download_accepts_offset_beyond_file_size:
  "file_size exFile = 12
   \<and> Download_validate exRenter (exRequest False None 0 13 ''a'' ''/tmp/out'')
       = Inr (exFile, exRequest False None 18446744073709551615 13 ''a'' ''/tmp/out'')
   \<and> Download_validate exRenter (exRequest False None 18446744073709551610 13 ''a'' ''/tmp/out'')
       = Inr (exFile, exRequest False None 18446744073709551610 13 ''a'' ''/tmp/out'')
   \<and> newDownload exRenter (exParams 13 18446744073709551615) 7
       = Some (Return (Inr 0,
           exRenter\<lparr>downloads :=
             [\<lparr>atomicDataReceived = 0, atomicTotalDataTransfered = 0, chunksRemaining = 0,
               completeChan = ChanOpen, err = None, endTime = 0, staticStartTime = 7,
               destination = \<lparr>dest_closed = False, dest_closeErr = None\<rparr>,
               destinationString = ''/tmp/out'', destinationType = [],
               staticLength = 18446744073709551615, staticOffset = 13, staticSiaPath = ''a'',
               staticLatencyTarget = 25000, staticOverdrive = 2, staticPriority = 5\<rparr>]\<rparr>))
   \<and> Download exRenter (exRequest False None 0 13 ''a'' ''/tmp/out'') exEnv
       = Some (Return (Some (New ''download interrupted by shutdown''),
           exRenter\<lparr>downloads :=
             [\<lparr>atomicDataReceived = 0, atomicTotalDataTransfered = 0, chunksRemaining = 0,
               completeChan = ChanOpen, err = None, endTime = 0, staticStartTime = 7,
               destination = \<lparr>dest_closed = False, dest_closeErr = None\<rparr>,
               destinationString = ''/tmp/out'', destinationType = [],
               staticLength = 18446744073709551615, staticOffset = 13, staticSiaPath = ''a'',
               staticLatencyTarget = 25000, staticOverdrive = 2, staticPriority = 5\<rparr>],
             downloadHistory := [0]\<rparr>))"
proof -
  have p: "\<lparr>params_destination = \<lparr>dest_closed = False, dest_closeErr = None\<rparr>,
            params_destinationType = ''file'',
            params_destinationString = ''/tmp/out'',
            params_file = Some exFile,
            params_latencyTarget = 25000,
            params_length = 18446744073709551615,
            params_needsMemory = True,
            params_offset = 13,
            params_overdrive = 2,
            params_priority = 5\<rparr> = exParams 13 18446744073709551615"
    by (simp add: exParams_def)
  have e: "Download_enqueue exRenter exFile
             (exRequest False None 18446744073709551615 13 ''a'' ''/tmp/out'') exEnv
           = Some (Return (Inr 0,
           exRenter\<lparr>downloads :=
             [\<lparr>atomicDataReceived = 0, atomicTotalDataTransfered = 0, chunksRemaining = 0,
               completeChan = ChanOpen, err = None, endTime = 0, staticStartTime = 7,
               destination = \<lparr>dest_closed = False, dest_closeErr = None\<rparr>,
               destinationString = ''/tmp/out'', destinationType = [],
               staticLength = 18446744073709551615, staticOffset = 13, staticSiaPath = ''a'',
               staticLatencyTarget = 25000, staticOverdrive = 2, staticPriority = 5\<rparr>],
             downloadHistory := [0]\<rparr>))"
    by (simp add: Download_enqueue_def exRequest_def exEnv_def p bad_newDownload)
       (simp add: exRenter_def)
  have d: "Download exRenter (exRequest False None 0 13 ''a'' ''/tmp/out'') exEnv
       = Some (Return (Some (New ''download interrupted by shutdown''),
           exRenter\<lparr>downloads :=
             [\<lparr>atomicDataReceived = 0, atomicTotalDataTransfered = 0, chunksRemaining = 0,
               completeChan = ChanOpen, err = None, endTime = 0, staticStartTime = 7,
               destination = \<lparr>dest_closed = False, dest_closeErr = None\<rparr>,
               destinationString = ''/tmp/out'', destinationType = [],
               staticLength = 18446744073709551615, staticOffset = 13, staticSiaPath = ''a'',
               staticLatencyTarget = 25000, staticOverdrive = 2, staticPriority = 5\<rparr>],
             downloadHistory := [0]\<rparr>))"
    by (simp add: Download_def bad_validate e Download_wait_def Let_def)
       (simp add: exEnv_def staticComplete_def)
  have s: "file_size exFile = 12" by (simp add: exFile_def)
  from s bad_validate bad_validate2 bad_newDownload d show ?thesis by (intro conjI)
qed

section \<open>DownloadHistory\<close>

text \<open>
  Claim C9. When every pointer of the history refers to a download object (which
  \<^verbatim>\<open>Download\<close> maintains), \<^verbatim>\<open>DownloadHistory\<close> returns one entry per recorded download,
  in the reverse of the order of the history slice. Each entry's error string is empty
  when the download's error is nil and the error's message otherwise, and the other
  fields are copied from the download's current state. \<^verbatim>\<open>Download\<close> appends the new
  download at the end of the slice, so that it comes first in the next history.
\<close>

theorem DownloadHistory_most_recent_first:
  assumes "\<forall>dp\<in>set (downloadHistory r). dp < length (downloads r)"
  shows "DownloadHistory r
           = Return (map (\<lambda>dp. downloadInfo (downloads r ! dp)) (rev (downloadHistory r)))
    \<and> (\<forall>d. Error (downloadInfo d) = (case Err d of None \<Rightarrow> [] | Some e \<Rightarrow> ErrorMsg e)
           \<and> Destination (downloadInfo d) = destinationString d
           \<and> DestinationType (downloadInfo d) = destinationType d
           \<and> Length (downloadInfo d) = staticLength d
           \<and> Offset (downloadInfo d) = staticOffset d
           \<and> SiaPath (downloadInfo d) = staticSiaPath d
           \<and> Completed (downloadInfo d) = staticComplete d
           \<and> StartTime (downloadInfo d) = staticStartTime d
           \<and> EndTime (downloadInfo d) = endTime d
           \<and> Received (downloadInfo d) = atomicDataReceived d
           \<and> TotalDataTransfered (downloadInfo d) = atomicTotalDataTransfered d)
    \<and> (\<forall>f p env d r2. Download_enqueue r f p env = Some (Return (Inr d, r2)) \<longrightarrow>
           downloadHistory r2 = downloadHistory r @ [d]
         \<and> (\<forall>dp\<in>set (downloadHistory r2). dp < length (downloads r2))
         \<and> DownloadHistory r2
             = Return (downloadInfo (downloads r2 ! d)
                       # map (\<lambda>dp. downloadInfo (downloads r ! dp)) (rev (downloadHistory r))))"
proof (intro conjI allI impI)
  show "DownloadHistory r
           = Return (map (\<lambda>dp. downloadInfo (downloads r ! dp)) (rev (downloadHistory r)))"
    by (rule DownloadHistory_valid [OF assms])
next
  fix f p env d r2
  assume e: "Download_enqueue r f p env = Some (Return (Inr d, r2))"
  from Download_enqueue_Inr [OF e] obtain x where
    x: "d = length (downloads r)" "downloads r2 = downloads r @ [x]"
       "downloadHistory r2 = downloadHistory r @ [d]"
    by blast
  show h: "downloadHistory r2 = downloadHistory r @ [d]" by (rule x(3))
  show v2: "\<forall>dp\<in>set (downloadHistory r2). dp < length (downloads r2)"
    using assms x by auto
  have old: "map (\<lambda>dp. downloadInfo (downloads r2 ! dp)) (rev (downloadHistory r))
             = map (\<lambda>dp. downloadInfo (downloads r ! dp)) (rev (downloadHistory r))"
    using assms x(2) by (auto simp: nth_append)
  show "DownloadHistory r2
             = Return (downloadInfo (downloads r2 ! d)
                       # map (\<lambda>dp. downloadInfo (downloads r ! dp)) (rev (downloadHistory r)))"
    using DownloadHistory_valid [OF v2] old by (simp add: h)
qed (simp_all add: downloadInfo_def)

theorem DownloadHistory_most_recent_first_witness:
  "downloadHistory exHistoryRenter = [0, 1]
   \<and> length (downloads exHistoryRenter) = 2
   \<and> DownloadHistory exHistoryRenter
       = Return
           [\<lparr>Destination = ''/tmp/out'', DestinationType = [], Length = 10, Offset = 0,
             SiaPath = ''b'', Completed = True, EndTime = 0, Received = 0, StartTime = 7,
             TotalDataTransfered = 0, Error = ''[x; y]''\<rparr>,
            \<lparr>Destination = ''/tmp/out'', DestinationType = [], Length = 10, Offset = 0,
             SiaPath = ''a'', Completed = False, EndTime = 0, Received = 0, StartTime = 7,
             TotalDataTransfered = 0, Error = []\<rparr>]"
proof -
  have h: "downloadHistory exHistoryRenter = [0, 1]"
    and d: "downloads exHistoryRenter = [pendingDownload, failedDownload]"
    by (simp_all add: exHistoryRenter_def)
  have v: "\<forall>dp\<in>set (downloadHistory exHistoryRenter). dp < length (downloads exHistoryRenter)"
    by (simp add: h d)
  have i1: "downloadInfo failedDownload
            = \<lparr>Destination = ''/tmp/out'', DestinationType = [], Length = 10, Offset = 0,
             SiaPath = ''b'', Completed = True, EndTime = 0, Received = 0, StartTime = 7,
             TotalDataTransfered = 0, Error = ''[x; y]''\<rparr>"
    by (simp add: downloadInfo_def failedDownload_def pendingDownload_def staticComplete_def Err_def)
  have i0: "downloadInfo pendingDownload
            = \<lparr>Destination = ''/tmp/out'', DestinationType = [], Length = 10, Offset = 0,
             SiaPath = ''a'', Completed = False, EndTime = 0, Received = 0, StartTime = 7,
             TotalDataTransfered = 0, Error = []\<rparr>"
    by (simp add: downloadInfo_def pendingDownload_def staticComplete_def Err_def)
  from DownloadHistory_most_recent_first [OF v]
  have "DownloadHistory exHistoryRenter
           = Return (map (\<lambda>dp. downloadInfo (downloads exHistoryRenter ! dp))
                       (rev (downloadHistory exHistoryRenter)))"
    by (rule conjunct1)
  then show ?thesis by (simp add: h d i0 i1)
qed

end
